theory Spec2Isabelle
  imports Main "HOL-Library.AList" "HOL-Library.Sublist" "HOL-Library.Char_ord"
    "HOL-Library.List_Lexorder"
begin

section \<open>Python strings\<close>

text \<open>
  A Python \<open>str\<close> is modelled as a \<open>string\<close> whose characters are the code points
  below 256. \<open>is_space\<close> is \<open>str.isspace\<close> (and the regular expression class \<open>\s\<close>) on
  these code points, \<open>lower_char\<close> is \<open>str.lower\<close> on one of them.
\<close>

definition is_space :: "char \<Rightarrow> bool" where
  "is_space c =
     (let n = (of_char c :: nat)
      in (9 \<le> n \<and> n \<le> 13) \<or> (28 \<le> n \<and> n \<le> 32) \<or> n = 133 \<or> n = 160)"

definition lower_char :: "char \<Rightarrow> char" where
  "lower_char c =
     (let n = (of_char c :: nat)
      in if (65 \<le> n \<and> n \<le> 90) \<or> (192 \<le> n \<and> n \<le> 222 \<and> n \<noteq> 215)
         then char_of (n + 32) else c)"

definition lower :: "string \<Rightarrow> string" where
  "lower s = map lower_char s"

definition rstrip_chars :: "(char \<Rightarrow> bool) \<Rightarrow> string \<Rightarrow> string" where
  "rstrip_chars p s = rev (dropWhile p (rev s))"

definition strip :: "string \<Rightarrow> string" where
  "strip s = rstrip_chars is_space (dropWhile is_space s)"

definition rstrip_slash :: "string \<Rightarrow> string" where
  "rstrip_slash s = rstrip_chars (\<lambda>c. c = CHR ''/'') s"

text \<open>\<open>sub in s\<close>: \<open>sub\<close> occurs in \<open>s\<close> as a contiguous substring.\<close>

fun contains :: "string \<Rightarrow> string \<Rightarrow> bool" where
  "contains sub [] = (sub = [])"
| "contains sub (c # cs) = (prefix sub (c # cs) \<or> contains sub cs)"

definition startswith :: "string \<Rightarrow> string \<Rightarrow> bool" where
  "startswith p s = prefix p s"

definition endswith :: "string \<Rightarrow> string \<Rightarrow> bool" where
  "endswith p s = suffix p s"

text \<open>\<open>s.split(sep)[0]\<close>: the text before the first separator.\<close>

definition split_first :: "char \<Rightarrow> string \<Rightarrow> string" where
  "split_first sep s = takeWhile (\<lambda>c. c \<noteq> sep) s"

text \<open>\<open>s.split(sep, 1)[1]\<close> for an \<open>s\<close> that holds the separator: the text after the first one.\<close>

definition split_rest :: "char \<Rightarrow> string \<Rightarrow> string" where
  "split_rest sep s = tl (dropWhile (\<lambda>c. c \<noteq> sep) s)"

text \<open>Truth value of an optional string: \<open>None\<close> and the empty string are false.\<close>

definition truthy_opt :: "string option \<Rightarrow> bool" where
  "truthy_opt v = (case v of None \<Rightarrow> False | Some s \<Rightarrow> s \<noteq> [])"

section \<open>The Part-1 row extractor\<close>

text \<open>
  A cell is modelled by its \<open>str(cell)\<close> image, a row by the list of these.
  The two inner loops of \<open>extract_from_rows\<close> differ in the key only; \<open>scan_cells\<close> is that
  loop, returning the value it assigns (\<open>None\<close> when it assigns nothing). The loop stops
  at the first cell holding the key, whether or not a value was found there.
\<close>

definition colon_value :: "string \<Rightarrow> string option" where
  "colon_value cell =
     (if CHR '':'' \<in> set cell
      then (let p = strip (split_rest CHR '':'' cell) in if p \<noteq> [] then Some p else None)
      else None)"

fun scan_cells :: "string \<Rightarrow> string list \<Rightarrow> string option" where
  "scan_cells key [] = None"
| "scan_cells key (cell # rest) =
     (if contains key (lower cell)
      then (case rest of
              nxt # _ \<Rightarrow> if nxt \<noteq> [] then Some nxt else colon_value cell
            | [] \<Rightarrow> colon_value cell)
      else scan_cells key rest)"

definition scan_field :: "string \<Rightarrow> string list \<Rightarrow> string option \<Rightarrow> string option" where
  "scan_field key row_str cur =
     (if \<not> truthy_opt cur
      then (case scan_cells key row_str of Some v \<Rightarrow> Some v | None \<Rightarrow> cur)
      else cur)"

fun scan_rows ::
  "string list list \<Rightarrow> string option \<times> string option \<Rightarrow> string option \<times> string option" where
  "scan_rows [] acc = acc"
| "scan_rows (row # rows) (cd, url) =
     (if row = [] then scan_rows rows (cd, url)
      else (let row_str = map strip row
            in scan_rows rows
                 (scan_field ''community district'' row_str cd,
                  scan_field ''storymap url'' row_str url)))"

definition extract_from_rows ::
  "string list list \<Rightarrow> string option \<times> string option \<times> bool" where
  "extract_from_rows rows =
     (let (cd, url) = scan_rows (take 10 rows) (None, None)
      in (cd, url, \<not> truthy_opt cd \<or> \<not> truthy_opt url))"

section \<open>Student records\<close>

text \<open>
  A student record is a Python \<open>dict\<close> from key to value: an association list in insertion
  order, read with \<open>map_of\<close> and written with \<open>AList.update\<close> (an existing key keeps its
  place, a new key goes to the end). The values this program stores are \<open>None\<close>,
  booleans and strings. \<open>records\<close> is the dictionary from student identifier to record.
\<close>

datatype val = VNone | VBool bool | VStr string

type_synonym student_record = "(string \<times> val) list"

type_synonym records = "(string \<times> student_record) list"

definition of_opt :: "string option \<Rightarrow> val" where
  "of_opt v = (case v of None \<Rightarrow> VNone | Some s \<Rightarrow> VStr s)"

fun truthy :: "val \<Rightarrow> bool" where
  "truthy VNone = False"
| "truthy (VBool b) = b"
| "truthy (VStr s) = (s \<noteq> [])"

text \<open>\<open>d.get(k)\<close>: \<open>None\<close> for a missing key.\<close>

definition get :: "student_record \<Rightarrow> string \<Rightarrow> val" where
  "get r k = (case map_of r k of None \<Rightarrow> VNone | Some v \<Rightarrow> v)"

section \<open>Exceptions and the log\<close>

text \<open>
  A function that can raise returns a sum: \<open>Inl e\<close> is the exception raised, with its
  text \<open>e\<close>, and \<open>Inr x\<close> the value returned.

  \<open>log_error\<close> prints the message and appends it to the log file, and raises when it
  cannot. Whether it can is an input of the run: \<open>w lg message\<close> is \<open>None\<close> when the
  message can be printed and appended to a log that holds the lines \<open>lg\<close>, and the text
  of the exception otherwise; the log is then left as it was. \<open>writable\<close> is the log that
  never fails.
\<close>

type_synonym log_write = "string list \<Rightarrow> string \<Rightarrow> string option"

definition writable :: log_write where
  "writable lg message = None"

definition log_error :: "log_write \<Rightarrow> string \<Rightarrow> string list \<Rightarrow> string + string list" where
  "log_error w message lg =
     (case w lg message of
        None \<Rightarrow> Inr (lg @ [message])
      | Some e \<Rightarrow> Inl e)"

text \<open>A state of the extractor: the records and the lines logged so far.\<close>

type_synonym state = "records \<times> string list"

text \<open>A call of \<open>log_error\<close> as a statement of the run: the records stay as they are.\<close>

definition then_log :: "log_write \<Rightarrow> string \<Rightarrow> state \<Rightarrow> string + state" where
  "then_log w message st =
     (case log_error w message (snd st) of
        Inl e \<Rightarrow> Inl e
      | Inr lg \<Rightarrow> Inr (fst st, lg))"

definition SOURCE_DIR_1 :: string where
  "SOURCE_DIR_1 = ''lecture_checklists/cdspec_1''"

definition SOURCE_DIR_2 :: string where
  "SOURCE_DIR_2 = ''lecture_checklists/cdspec_2''"

text \<open>\<open>os.path.join\<close> of two components.\<close>

definition path_join :: "string \<Rightarrow> string \<Rightarrow> string" where
  "path_join a b =
     (if startswith ''/'' b then b
      else if a = [] \<or> endswith ''/'' a then a @ b
      else a @ ''/'' @ b)"


section \<open>Part 1: one CSV or Excel file\<close>

text \<open>
  What the file system and the parsing libraries answer for one Part-1 file is an input:
  whether the first bytes are \<open>PK\<close> (false when the file cannot be opened for that check),
  and the outcome of each reader, either the text of the exception it raises or the rows
  it returns (\<open>list(csv.reader(f))\<close>, and \<open>df.values.tolist()\<close> for the two pandas readers).
\<close>

record csv_file =
  pk_signature :: bool
  csv_rows :: "string + string list list"
  read_excel :: "string + string list list"
  read_csv :: "string + string list list"

text \<open>
  The strict check. \<open>rows[0][0]\<close> and \<open>rows[1][0]\<close> raise IndexError on an empty row,
  inside the \<open>try\<close>.
\<close>

fun strict_check :: "string list list \<Rightarrow> string + bool" where
  "strict_check ([] # _ # _) = Inl ''list index out of range''"
| "strict_check (_ # [] # _) = Inl ''list index out of range''"
| "strict_check ((c0 # _) # (c1 # _) # _) =
     Inr (contains ''Community District'' c0 \<and> contains ''StoryMap URL'' c1)"
| "strict_check _ = Inr False"

text \<open>The body of the outer \<open>try\<close> up to the strict check: an exception text, or the rows
  and \<open>strict_ok\<close>.\<close>

definition try_csv :: "csv_file \<Rightarrow> string + (string list list \<times> bool)" where
  "try_csv f =
     (if pk_signature f then Inl ''Detected Excel file signature''
      else (case csv_rows f of
              Inl e \<Rightarrow> Inl e
            | Inr rows \<Rightarrow>
                (case strict_check rows of
                   Inl e \<Rightarrow> Inl e
                 | Inr strict_ok \<Rightarrow> Inr (rows, strict_ok))))"

text \<open>
  The whole body of the outer \<open>try\<close>. The call of \<open>log_error\<close> for a deviant format is
  inside it, so an exception it raises is caught by the handler like any other, before
  anything is assigned. The result is \<open>(community_district, storymap_url, needs_review)\<close>
  and the log.
\<close>

definition csv_block ::
  "log_write \<Rightarrow> string \<Rightarrow> csv_file \<Rightarrow> string list \<Rightarrow>
   string + ((string option \<times> string option \<times> bool) \<times> string list)" where
  "csv_block w filename f lg =
     (case try_csv f of
        Inl e \<Rightarrow> Inl e
      | Inr (rows, strict_ok) \<Rightarrow>
          (case (if strict_ok then Inr lg
                 else log_error w (''DEVIANT FORMAT: '' @ filename @ '' - trying fuzzy search.'') lg)
           of
             Inl e \<Rightarrow> Inl e
           | Inr lg1 \<Rightarrow>
               (let (cd, url, issues) = extract_from_rows rows
                in Inr ((cd, url, \<not> strict_ok \<or> issues), lg1))))"

text \<open>The reading of the inner \<open>try\<close>: the rows pandas returns, or an exception text.\<close>

definition try_pandas :: "bool \<Rightarrow> string \<Rightarrow> string \<Rightarrow> csv_file \<Rightarrow> string + string list list" where
  "try_pandas pd e_csv filename f =
     (if \<not> pd then Inl ''Pandas library not available for advanced parsing.''
      else if e_csv = ''Detected Excel file signature'' \<or> endswith ''.xlsx'' filename
                \<or> endswith ''.xls'' filename
      then read_excel f
      else read_csv f)"

text \<open>
  The whole body of the inner \<open>try\<close>: the two fields as they are when it ends, and the
  log or the exception that its handler catches. The call of \<open>log_error\<close> comes after the
  fields are assigned, so they keep their values when it raises.
\<close>

definition pandas_block ::
  "log_write \<Rightarrow> bool \<Rightarrow> string \<Rightarrow> string \<Rightarrow> csv_file \<Rightarrow> string list \<Rightarrow>
   (string option \<times> string option) \<times> (string + string list)" where
  "pandas_block w pd e_csv filename f lg =
     (case try_pandas pd e_csv filename f of
        Inl e \<Rightarrow> ((None, None), Inl e)
      | Inr rows \<Rightarrow>
          (let (cd, url, issues) = extract_from_rows rows
           in ((cd, url),
               log_error w
                 (if issues
                  then ''PANDAS FAIL: '' @ filename @ '' - Still missing data after coercion.''
                  else ''RECOVERED: '' @ filename @ '' - Extracted data using Pandas/Fuzzy search.'')
                 lg)))"

text \<open>
  The two strategies for one file: \<open>(community_district, storymap_url, needs_review)\<close>
  before the final check, and the log. The two calls of \<open>log_error\<close> in the handlers are
  not guarded: an exception they raise ends the run.
\<close>

definition read_part1 ::
  "log_write \<Rightarrow> bool \<Rightarrow> string \<Rightarrow> csv_file \<Rightarrow> string list \<Rightarrow>
   string + ((string option \<times> string option \<times> bool) \<times> string list)" where
  "read_part1 w pd filename f lg =
     (case csv_block w filename f lg of
        Inr res \<Rightarrow> Inr res
      | Inl e_csv \<Rightarrow>
          (case log_error w
                  (''CSV FAIL: '' @ filename @ '' ('' @ e_csv @ ''). Attempting with Pandas...'') lg
           of
             Inl e \<Rightarrow> Inl e
           | Inr lg1 \<Rightarrow>
               (case pandas_block w pd e_csv filename f lg1 of
                  ((cd, url), Inr lg2) \<Rightarrow> Inr ((cd, url, True), lg2)
                | ((cd, url), Inl e_pd) \<Rightarrow>
                    (case log_error w
                            (''FATAL: Could not process '' @ filename @ ''. Error: '' @ e_pd) lg1
                     of
                       Inl e \<Rightarrow> Inl e
                     | Inr lg2 \<Rightarrow> Inr ((cd, url, True), lg2)))))"

definition part1_record :: "string \<Rightarrow> string option \<Rightarrow> string option \<Rightarrow> bool \<Rightarrow> student_record" where
  "part1_record student_name community_district storymap_url needs_review =
     [(''student'', VStr student_name),
      (''community_district'', of_opt community_district),
      (''storymap_url'', of_opt storymap_url),
      (''needs_review'', VBool needs_review),
      (''part_1_completed'', VBool True)]"

text \<open>One iteration of the Part-1 loop. The record is stored after the last call of
  \<open>log_error\<close>.\<close>

definition part1_file :: "log_write \<Rightarrow> bool \<Rightarrow> string \<times> csv_file \<Rightarrow> state \<Rightarrow> string + state" where
  "part1_file w pd entry st =
     (let (filename, f) = entry
      in if startswith ''.'' filename then Inr st
         else (let student_name = split_first CHR ''_'' filename
               in (case read_part1 w pd filename f (snd st) of
                     Inl e \<Rightarrow> Inl e
                   | Inr ((cd, url, needs_review), lg1) \<Rightarrow>
                       (case (if \<not> truthy_opt cd
                              then log_error w
                                     (''MISSING DATA: '' @ filename
                                        @ '' - No Community District found.'') lg1
                              else Inr lg1)
                        of
                          Inl e \<Rightarrow> Inl e
                        | Inr lg2 \<Rightarrow>
                            (case (if \<not> truthy_opt url
                                   then log_error w
                                          (''MISSING DATA: '' @ filename
                                             @ '' - No StoryMap URL found.'') lg2
                                   else Inr lg2)
                             of
                               Inl e \<Rightarrow> Inl e
                             | Inr lg3 \<Rightarrow>
                                 Inr (AList.update student_name
                                        (part1_record student_name cd url
                                           (needs_review \<or> \<not> truthy_opt cd \<or> \<not> truthy_opt url))
                                        (fst st),
                                      lg3))))))"


section \<open>Part 2: the URL of one HTML file\<close>

text \<open>
  The two patterns of \<open>extract_url_from_html\<close> are run by a backtracking matcher, as
  \<open>re.search\<close> does: an item matches one character of a class (\<open>Chr\<close>), a greedy
  repetition of a class (\<open>Star\<close>), or the capturing group, a greedy repetition of at least
  one character of a class (\<open>GroupPlus\<close>; \<open>GroupStar\<close> is the rest of that repetition
  after its first character). A greedy repetition first takes one more character and
  gives it back when the rest of the pattern then fails. The result is group 1.
\<close>

datatype re_item =
    Chr "char \<Rightarrow> bool"
  | Star "char \<Rightarrow> bool"
  | GroupPlus "char \<Rightarrow> bool"
  | GroupStar "char \<Rightarrow> bool"

fun re_match :: "re_item list \<Rightarrow> string \<Rightarrow> string \<Rightarrow> string option" where
  "re_match [] s g = Some g"
| "re_match (Chr c # r) [] g = None"
| "re_match (Chr c # r) (x # xs) g = (if c x then re_match r xs g else None)"
| "re_match (Star c # r) [] g = re_match r [] g"
| "re_match (Star c # r) (x # xs) g =
     (if c x
      then (case re_match (Star c # r) xs g of
              Some m \<Rightarrow> Some m
            | None \<Rightarrow> re_match r (x # xs) g)
      else re_match r (x # xs) g)"
| "re_match (GroupPlus c # r) [] g = None"
| "re_match (GroupPlus c # r) (x # xs) g =
     (if c x then re_match (GroupStar c # r) xs [x] else None)"
| "re_match (GroupStar c # r) [] g = re_match r [] g"
| "re_match (GroupStar c # r) (x # xs) g =
     (if c x
      then (case re_match (GroupStar c # r) xs (g @ [x]) of
              Some m \<Rightarrow> Some m
            | None \<Rightarrow> re_match r (x # xs) g)
      else re_match r (x # xs) g)"

text \<open>\<open>re.search\<close>: the match at the leftmost position that has one.\<close>

fun re_search :: "re_item list \<Rightarrow> string \<Rightarrow> string option" where
  "re_search p [] = re_match p [] []"
| "re_search p (x # xs) =
     (case re_match p (x # xs) [] of
        Some m \<Rightarrow> Some m
      | None \<Rightarrow> re_search p xs)"

text \<open>A literal character under \<open>re.IGNORECASE\<close>, and a literal string.\<close>

definition lit :: "char \<Rightarrow> re_item" where
  "lit c = Chr (\<lambda>x. lower_char x = lower_char c)"

definition lits :: "string \<Rightarrow> re_item list" where
  "lits s = map lit s"

definition is_quote :: "char \<Rightarrow> bool" where
  "is_quote c = (c = CHR 0x22 \<or> c = CHR 0x27)"

text \<open>\<^verbatim>\<open><a\s+[^>]*href=["\']([^"\']+)["\']\<close>\<close>

definition anchor_pattern :: "re_item list" where
  "anchor_pattern =
     lits ''<a'' @ [Chr is_space, Star is_space, Star (\<lambda>c. c \<noteq> CHR ''>'')] @ lits ''href=''
     @ [Chr is_quote, GroupPlus (\<lambda>c. \<not> is_quote c), Chr is_quote]"

text \<open>\<^verbatim>\<open>content=["\'][^"\']*url=([^"\';]+)\<close>\<close>

definition meta_pattern :: "re_item list" where
  "meta_pattern =
     lits ''content='' @ [Chr is_quote, Star (\<lambda>c. \<not> is_quote c)] @ lits ''url=''
     @ [GroupPlus (\<lambda>c. \<not> is_quote c \<and> c \<noteq> CHR '';'')]"


text \<open>The body of the \<open>try\<close> once the file is read: the anchor first, the meta refresh
  only when there is no anchor.\<close>

definition find_url :: "string \<Rightarrow> string option" where
  "find_url content =
     (case re_search anchor_pattern content of
        Some m \<Rightarrow> Some m
      | None \<Rightarrow>
          (case re_search meta_pattern content of
             Some m \<Rightarrow> Some m
           | None \<Rightarrow> None))"

text \<open>
  What reading the file gives is an input: the text of the exception raised, or the
  content. The result is the URL (\<open>None\<close> when there is none) and the log. The handler
  calls \<open>log_error\<close>, and an exception that call raises is not caught.
\<close>

definition extract_url_from_html ::
  "log_write \<Rightarrow> string \<Rightarrow> string + string \<Rightarrow> string list \<Rightarrow> string + (string option \<times> string list)" where
  "extract_url_from_html w filepath file lg =
     (case file of
        Inl e \<Rightarrow>
          (case log_error w (''HTML FAIL: '' @ filepath @ '' - '' @ e) lg of
             Inl e' \<Rightarrow> Inl e'
           | Inr lg1 \<Rightarrow> Inr (None, lg1))
      | Inr content \<Rightarrow> Inr (find_url content, lg))"


section \<open>Part 2: merging one HTML file\<close>

text \<open>
  \<open>url.strip().rstrip('/').lower() if url else ""\<close>. The field \<open>storymap_url\<close> holds
  \<open>None\<close> or a string in every record the extractor builds (\<open>run_storymap_url_typed\<close>
  below), so the last equation is never reached with a boolean.
\<close>

fun clean_url :: "val \<Rightarrow> string" where
  "clean_url (VStr s) = (if s \<noteq> [] then lower (rstrip_slash (strip s)) else [])"
| "clean_url _ = []"

fun str_of :: "val \<Rightarrow> string" where
  "str_of (VStr s) = s"
| "str_of VNone = ''None''"
| "str_of (VBool b) = (if b then ''True'' else ''False'')"

text \<open>The branch \<open>if not url_2\<close>: log, then flag the record if there is one; create none.\<close>

definition part2_fail :: "log_write \<Rightarrow> string \<Rightarrow> string \<Rightarrow> state \<Rightarrow> string + state" where
  "part2_fail w filename student_name st =
     (case then_log w (''PART 2 FAIL: Could not extract URL from '' @ filename) st of
        Inl e \<Rightarrow> Inl e
      | Inr st1 \<Rightarrow>
          (case map_of (fst st1) student_name of
             Some r \<Rightarrow>
               Inr (AList.update student_name
                      (AList.update ''part_2_error'' (VStr ''No URL found in HTML'')
                         (AList.update ''needs_review'' (VBool True) r))
                      (fst st1),
                    snd st1)
           | None \<Rightarrow> Inr st1))"

definition part2_record :: "string \<Rightarrow> string \<Rightarrow> student_record" where
  "part2_record student_name url_2 =
     [(''student'', VStr student_name),
      (''community_district'', VNone),
      (''storymap_url'', VStr url_2),
      (''storymap_url_2'', VStr url_2),
      (''needs_review'', VBool True),
      (''part_1_completed'', VBool False),
      (''part_2_completed'', VBool True),
      (''note'', VStr ''Found only in Part 2'')]"

text \<open>The rest of the loop body, for a file whose URL \<open>url_2\<close> was found. Each call of
  \<open>log_error\<close> comes after the record is changed.\<close>

definition part2_merge :: "log_write \<Rightarrow> string \<Rightarrow> string \<Rightarrow> state \<Rightarrow> string + state" where
  "part2_merge w student_name url_2 st =
     (case map_of (fst st) student_name of
        Some r0 \<Rightarrow>
          (let r = AList.update ''part_2_completed'' (VBool True)
                     (AList.update ''storymap_url_2'' (VStr url_2) r0);
               url_1 = get r ''storymap_url'';
               u1_clean = clean_url url_1;
               u2_clean = clean_url (VStr url_2)
           in if u1_clean = [] \<and> u2_clean \<noteq> []
              then then_log w
                     (''UPDATED: '' @ student_name @ '' - Using Part 2 URL (Part 1 missing).'')
                     (AList.update student_name
                        (AList.update ''storymap_url'' (VStr url_2) r) (fst st),
                      snd st)
              else if u1_clean \<noteq> [] \<and> u2_clean \<noteq> [] \<and> u1_clean \<noteq> u2_clean
              then then_log w
                     (''URL MISMATCH: '' @ student_name @ '' - Part 1: '' @ str_of url_1
                        @ '' vs Part 2: '' @ url_2)
                     (AList.update student_name
                        (AList.update ''url_mismatch'' (VBool True) r) (fst st),
                      snd st)
              else Inr (AList.update student_name r (fst st), snd st))
      | None \<Rightarrow>
          then_log w (''NEW STUDENT: '' @ student_name @ '' found in Part 2.'')
            (AList.update student_name (part2_record student_name url_2) (fst st), snd st))"

text \<open>One iteration of the Part-2 loop.\<close>

definition part2_file :: "log_write \<Rightarrow> string \<times> (string + string) \<Rightarrow> state \<Rightarrow> string + state" where
  "part2_file w entry st =
     (let (filename, file) = entry
      in if startswith ''.'' filename \<or> \<not> endswith ''.html'' filename then Inr st
         else (let filepath = path_join SOURCE_DIR_2 filename;
                   student_name = split_first CHR ''_'' filename
               in (case extract_url_from_html w filepath file (snd st) of
                     Inl e \<Rightarrow> Inl e
                   | Inr (url_2, lg) \<Rightarrow>
                       (case url_2 of
                          None \<Rightarrow> part2_fail w filename student_name (fst st, lg)
                        | Some u \<Rightarrow>
                            if u = [] then part2_fail w filename student_name (fst st, lg)
                            else part2_merge w student_name u (fst st, lg)))))"

section \<open>The extractor\<close>

text \<open>
  The input of a run: each source directory, \<open>None\<close> when it does not exist, otherwise its
  entries as \<open>os.listdir\<close> returns them, each with what reading it gives; whether pandas
  could be imported; and what writing to the log gives. The run starts from no records
  and an empty log (the log file of an earlier run is removed). It returns the array
  written to the output file and the log, or the exception that ended it; nothing is
  written to the output file then.
\<close>

record input =
  cdspec_1 :: "(string \<times> csv_file) list option"
  cdspec_2 :: "(string \<times> (string + string)) list option"
  pandas :: bool
  log_write :: log_write

text \<open>A \<open>for\<close> loop whose body can raise: the exception ends the loop.\<close>

fun for_each :: "('a \<Rightarrow> 's \<Rightarrow> string + 's) \<Rightarrow> 'a list \<Rightarrow> 's \<Rightarrow> string + 's" where
  "for_each body [] s = Inr s"
| "for_each body (x # xs) s =
     (case body x s of
        Inl e \<Rightarrow> Inl e
      | Inr s' \<Rightarrow> for_each body xs s')"

definition part1_phase :: "input \<Rightarrow> state \<Rightarrow> string + state" where
  "part1_phase inp st =
     (case cdspec_1 inp of
        None \<Rightarrow> then_log (log_write inp) (''CRITICAL: Directory not found: '' @ SOURCE_DIR_1) st
      | Some entries \<Rightarrow>
          for_each (part1_file (log_write inp) (pandas inp)) (sort_key fst entries) st)"

definition part2_phase :: "input \<Rightarrow> state \<Rightarrow> string + state" where
  "part2_phase inp st =
     (case cdspec_2 inp of
        None \<Rightarrow> Inr st
      | Some entries \<Rightarrow> for_each (part2_file (log_write inp)) (sort_key fst entries) st)"

definition process_files :: "input \<Rightarrow> string + (student_record list \<times> string list)" where
  "process_files inp =
     (case part1_phase inp ([], []) of
        Inl e \<Rightarrow> Inl e
      | Inr st1 \<Rightarrow>
          (case part2_phase inp st1 of
             Inl e \<Rightarrow> Inl e
           | Inr st \<Rightarrow> Inr (map snd (fst st), snd st)))"


section \<open>The screenshotter\<close>

definition OUTPUT_DIR :: string where
  "OUTPUT_DIR = ''processing/storymaps_archive''"

text \<open>The worklist of one record.\<close>

definition urls_to_process :: "student_record \<Rightarrow> (string \<times> val) list" where
  "urls_to_process student_record =
     (let url1 = get student_record ''storymap_url''
      in if truthy url1 then [(''part1'', url1)] else [])
     @ (if truthy (get student_record ''url_mismatch'')
        then (let url2 = get student_record ''storymap_url_2''
              in if truthy url2 then [(''part2'', url2)] else [])
        else [])"

text \<open>
  The world the screenshotter acts on: the file system, a map from a path to a file with
  its content or to a directory (paths are compared as written); the URLs given to
  \<open>page.goto\<close>, in order; the lines printed; and the uncaught exception that ended the
  run, if one did.
\<close>

datatype node = File string | Dir

record world =
  files :: "string \<rightharpoonup> node"
  navigations :: "val list"
  printed :: "string list"
  crashed :: "string option"

text \<open>
  What the browser does with one URL is an input: \<open>context.new_page\<close> raises; \<open>page.goto\<close>
  raises; \<open>page.screenshot\<close> raises and writes nothing; the image is written; or the
  image is written and \<open>page.close\<close> raises.
\<close>

datatype visit =
    NewPageError string
  | GotoError string
  | ScreenshotError string
  | Saved string
  | SavedCloseError string string

definition is_file :: "(string \<rightharpoonup> node) \<Rightarrow> string \<Rightarrow> bool" where
  "is_file fs p = (case fs p of Some (File _) \<Rightarrow> True | _ \<Rightarrow> False)"

text \<open>The path itself and every proper prefix of it that ends before a \<open>/\<close>.\<close>

definition dir_chain :: "string \<Rightarrow> string list" where
  "dir_chain p =
     filter (\<lambda>q. q \<noteq> []) (map (\<lambda>i. take i p) (filter (\<lambda>i. p ! i = CHR ''/'') [0..<length p]))
     @ [p]"

text \<open>\<open>os.makedirs(p, exist_ok=True)\<close>: raises (FileExistsError or NotADirectoryError, both
  an OSError) when \<open>p\<close> or a directory above it is a file.\<close>

definition makedirs :: "string \<Rightarrow> (string \<rightharpoonup> node) \<Rightarrow> string + (string \<rightharpoonup> node)" where
  "makedirs p fs =
     (if list_ex (is_file fs) (dir_chain p) then Inl (''OSError: '' @ p)
      else Inr (fold (\<lambda>q m. m(q \<mapsto> Dir)) (dir_chain p) fs))"

definition print_line :: "string \<Rightarrow> world \<Rightarrow> world" where
  "print_line l w = w\<lparr>printed := printed w @ [l]\<rparr>"

text \<open>The body of the inner loop, for one pair of the worklist.\<close>

definition process_url :: "(val \<Rightarrow> visit) \<Rightarrow> string \<Rightarrow> string \<times> val \<Rightarrow> world \<Rightarrow> world" where
  "process_url browse student_dir pair w =
     (let (label, url) = pair;
          output_path = path_join student_dir (label @ ''.png'')
      in if files w output_path \<noteq> None
         then print_line (''  - Skipping '' @ label @ '' (already exists)'') w
         else (let w = print_line (''  - Downloading '' @ label @ '': '' @ str_of url) w;
                   failed = (\<lambda>e. print_line (''    -> FAILED '' @ label @ '': '' @ e));
                   went = (\<lambda>w. w\<lparr>navigations := navigations w @ [url]\<rparr>);
                   saved = (\<lambda>img w. print_line (''    -> Saved to '' @ output_path)
                              (w\<lparr>files := (files w)(output_path \<mapsto> File img)\<rparr>))
               in (case browse url of
                     NewPageError e \<Rightarrow> failed e w
                   | GotoError e \<Rightarrow> failed e (went w)
                   | ScreenshotError e \<Rightarrow> failed e (went w)
                   | Saved img \<Rightarrow> saved img (went w)
                   | SavedCloseError img e \<Rightarrow> failed e (saved img (went w)))))"

text \<open>The body of the outer loop, for one record.\<close>

definition process_record :: "(val \<Rightarrow> visit) \<Rightarrow> student_record \<Rightarrow> world \<Rightarrow> world" where
  "process_record browse student_record w =
     (let student_name = get student_record ''student''
      in if \<not> truthy student_name then w
         else (let w = print_line (''Processing '' @ str_of student_name @ ''...'') w
               in (case student_name of
                     VStr s \<Rightarrow>
                       (let student_dir = path_join OUTPUT_DIR s
                        in (case makedirs student_dir (files w) of
                              Inl e \<Rightarrow> w\<lparr>crashed := Some e\<rparr>
                            | Inr fs \<Rightarrow>
                                fold (process_url browse student_dir)
                                  (urls_to_process student_record) (w\<lparr>files := fs\<rparr>)))
                   | _ \<Rightarrow> w\<lparr>crashed := Some ''TypeError''\<rparr>)))"

fun scrape_records :: "(val \<Rightarrow> visit) \<Rightarrow> student_record list \<Rightarrow> world \<Rightarrow> world" where
  "scrape_records browse [] w = w"
| "scrape_records browse (r # rs) w =
     (let w' = process_record browse r w
      in if crashed w' \<noteq> None then w' else scrape_records browse rs w')"

text \<open>The run, on the array loaded from the data file.\<close>

definition scrape_storymaps :: "(val \<Rightarrow> visit) \<Rightarrow> student_record list \<Rightarrow> world \<Rightarrow> world" where
  "scrape_storymaps browse data w =
     (case makedirs OUTPUT_DIR (files w) of
        Inl e \<Rightarrow> w\<lparr>crashed := Some e\<rparr>
      | Inr fs \<Rightarrow> scrape_records browse data (w\<lparr>files := fs\<rparr>))"


section \<open>Inputs and predicates used in the properties\<close>

definition example_table :: "string list list" where
  "example_table =
     [[''Community District'', [], []], [''StoryMap URL'', ''https://arcg.is/ABC123'']]"

definition meta_example :: string where
  "meta_example = ''<meta http-equiv=\"Refresh\" content=\"0; url=https://arcg.is/XYZ789\">''"

definition both_example :: string where
  "both_example =
     ''<a href=\"https://arcg.is/A1\">go</a><meta content=\"0; url=https://arcg.is/B2\">''"

text \<open>Two records: one without a URL, as Part 1 builds it, and one with a mismatch.\<close>

definition no_url_record :: student_record where
  "no_url_record = part1_record ''bob'' (Some ''CD 3'') None True"

definition mismatch_record :: student_record where
  "mismatch_record =
     [(''student'', VStr ''alice''), (''community_district'', VStr ''CD 1''),
      (''storymap_url'', VStr ''https://arcg.is/A1''), (''needs_review'', VBool False),
      (''part_1_completed'', VBool True), (''storymap_url_2'', VStr ''https://arcg.is/B2''),
      (''part_2_completed'', VBool True), (''url_mismatch'', VBool True)]"

text \<open>The two tests on a file name that make the loops skip an entry.\<close>

definition dot :: "string \<times> 'a \<Rightarrow> bool" where
  "dot e = startswith ''.'' (fst e)"

definition html :: "string \<times> 'a \<Rightarrow> bool" where
  "html e = endswith ''.html'' (fst e)"

text \<open>Every output image of a record's worklist exists in the file system.\<close>

definition images_exist :: "(string \<rightharpoonup> node) \<Rightarrow> student_record \<Rightarrow> bool" where
  "images_exist fs r =
     (case get r ''student'' of
        VStr s \<Rightarrow>
          list_all
            (\<lambda>(label, url). fs (path_join (path_join OUTPUT_DIR s) (label @ ''.png'')) \<noteq> None)
            (urls_to_process r)
      | _ \<Rightarrow> True)"

text \<open>Every entry of the first file system is in the second, unchanged.\<close>

definition keeps :: "(string \<rightharpoonup> node) \<Rightarrow> (string \<rightharpoonup> node) \<Rightarrow> bool" where
  "keeps fs fs' = (\<forall>q n. fs q = Some n \<longrightarrow> fs' q = Some n)"

text \<open>A world in which both images of \<open>mismatch_record\<close> exist, and a browser that
  would save a new image for every URL.\<close>

definition archived :: world where
  "archived =
     \<lparr>files = [''processing/storymaps_archive/alice/part1.png'' \<mapsto> File ''old 1'',
               ''processing/storymaps_archive/alice/part2.png'' \<mapsto> File ''old 2''],
      navigations = [], printed = [], crashed = None\<rparr>"

definition saving_browser :: "val \<Rightarrow> visit" where
  "saving_browser url = Saved ''new''"

text \<open>A run with entries that both loops skip.\<close>

definition good_csv :: "string \<Rightarrow> csv_file" where
  "good_csv url =
     \<lparr>pk_signature = False,
      csv_rows = Inr [[''Community District'', ''CD 1''], [''StoryMap URL'', url]],
      read_excel = Inl ''not read'', read_csv = Inl ''not read''\<rparr>"

definition link_page :: "string \<Rightarrow> string + string" where
  "link_page url = Inr (''<a href='' @ [CHR 0x22] @ url @ [CHR 0x22] @ ''>StoryMap</a>'')"

definition skipping_input :: input where
  "skipping_input =
     \<lparr>cdspec_1 = Some [(''.DS_Store'', good_csv ''https://arcg.is/Z9''),
                       (''alice_checklist.csv'', good_csv ''https://arcg.is/A1'')],
      cdspec_2 = Some [(''alice_part2.html'', link_page ''https://arcg.is/A1''),
                       (''carol_notes.txt'', link_page ''https://arcg.is/C3''),
                       (''.dave_part2.html'', link_page ''https://arcg.is/D4'')],
      pandas = True, log_write = writable\<rparr>"

text \<open>The student identifier of a directory entry, and the URL found in a Part-2 entry.\<close>

definition student_of :: "string \<times> 'a \<Rightarrow> string" where
  "student_of e = split_first CHR ''_'' (fst e)"

definition url_of :: "string \<times> (string + string) \<Rightarrow> string option" where
  "url_of e =
     (case snd e of
        Inl err \<Rightarrow> None
      | Inr content \<Rightarrow>
          (case find_url content of
             None \<Rightarrow> None
           | Some u \<Rightarrow> if u = [] then None else Some u))"

text \<open>A Part-2 entry that the loop processes and that has a URL, or has none.\<close>

definition with_url :: "string \<times> (string + string) \<Rightarrow> bool" where
  "with_url e = (\<not> dot e \<and> html e \<and> url_of e \<noteq> None)"

definition without_url :: "string \<times> (string + string) \<Rightarrow> bool" where
  "without_url e = (\<not> dot e \<and> html e \<and> url_of e = None)"

text \<open>The identifiers of the files a run processes: Part-1 files, Part-2 files with a URL,
  Part-2 files without one.\<close>

definition part1_students :: "input \<Rightarrow> string set" where
  "part1_students inp =
     (case cdspec_1 inp of
        None \<Rightarrow> {}
      | Some entries \<Rightarrow> student_of ` {e \<in> set entries. \<not> dot e})"

definition part2_students :: "input \<Rightarrow> string set" where
  "part2_students inp =
     (case cdspec_2 inp of
        None \<Rightarrow> {}
      | Some entries \<Rightarrow> student_of ` {e \<in> set entries. with_url e})"


text \<open>
  What an iteration of the Part-2 loop that does not raise does to the records: the
  record that \<open>part2_fail\<close> stores for a record \<open>r\<close>, the record that \<open>part2_merge\<close> stores
  for an existing record \<open>r0\<close>, and the step on the dictionary.
\<close>

definition flag_record :: "student_record \<Rightarrow> student_record" where
  "flag_record r =
     AList.update ''part_2_error'' (VStr ''No URL found in HTML'')
       (AList.update ''needs_review'' (VBool True) r)"

definition merge_record :: "string \<Rightarrow> student_record \<Rightarrow> student_record" where
  "merge_record url_2 r0 =
     (let r = AList.update ''part_2_completed'' (VBool True)
                (AList.update ''storymap_url_2'' (VStr url_2) r0);
          u1_clean = clean_url (get r ''storymap_url'');
          u2_clean = clean_url (VStr url_2)
      in if u1_clean = [] \<and> u2_clean \<noteq> [] then AList.update ''storymap_url'' (VStr url_2) r
         else if u1_clean \<noteq> [] \<and> u2_clean \<noteq> [] \<and> u1_clean \<noteq> u2_clean
         then AList.update ''url_mismatch'' (VBool True) r
         else r)"

definition part2_step :: "string \<times> (string + string) \<Rightarrow> records \<Rightarrow> records" where
  "part2_step e recs =
     (if dot e \<or> \<not> html e then recs
      else (case url_of e of
              None \<Rightarrow>
                (case map_of recs (student_of e) of
                   Some r \<Rightarrow> AList.update (student_of e) (flag_record r) recs
                 | None \<Rightarrow> recs)
            | Some u \<Rightarrow>
                AList.update (student_of e)
                  (case map_of recs (student_of e) of
                     Some r0 \<Rightarrow> merge_record u r0
                   | None \<Rightarrow> part2_record (student_of e) u)
                  recs))"



text \<open>The flag \<open>url_mismatch\<close> of a record agrees with its two URLs: it is true exactly
  when both normalized URLs are non-empty and differ.\<close>

definition consistent :: "student_record \<Rightarrow> bool" where
  "consistent r =
     ((get r ''url_mismatch'' = VBool True) =
      (clean_url (get r ''storymap_url'') \<noteq> []
       \<and> clean_url (get r ''storymap_url_2'') \<noteq> []
       \<and> clean_url (get r ''storymap_url'') \<noteq> clean_url (get r ''storymap_url_2'')))"

text \<open>The two normalized URLs of a record are non-empty and differ.\<close>

definition urls_differ :: "student_record \<Rightarrow> bool" where
  "urls_differ r =
     (clean_url (get r ''storymap_url'') \<noteq> []
      \<and> clean_url (get r ''storymap_url_2'') \<noteq> []
      \<and> clean_url (get r ''storymap_url'') \<noteq> clean_url (get r ''storymap_url_2''))"

text \<open>The entries of the Part-2 directory, and the pages with a URL that the Part-2 loop
  processes for one student.\<close>

definition part2_entries :: "input \<Rightarrow> (string \<times> (string + string)) list" where
  "part2_entries inp = (case cdspec_2 inp of None \<Rightarrow> [] | Some entries \<Rightarrow> entries)"

definition own_page :: "string \<Rightarrow> string \<times> (string + string) \<Rightarrow> bool" where
  "own_page s e = (with_url e \<and> student_of e = s)"

definition url_pages :: "input \<Rightarrow> string \<Rightarrow> (string \<times> (string + string)) list" where
  "url_pages inp s = filter (own_page s) (part2_entries inp)"

text \<open>An invariant of the Part-2 loop for the record of one student \<open>s\<close>, with the entries
  \<open>es\<close> still to come: the record is consistent, and while a page of \<open>s\<close> with a URL is
  still to come it has no mismatch flag.\<close>

definition unmerged :: "string \<Rightarrow> (string \<times> (string + string)) list \<Rightarrow> records \<Rightarrow> bool" where
  "unmerged s es recs =
     (\<forall>r. map_of recs s = Some r \<longrightarrow>
        consistent r \<and> (filter (own_page s) es \<noteq> [] \<longrightarrow> get r ''url_mismatch'' \<noteq> VBool True))"





text \<open>Runs used as examples. A page without a link, and a run with four students: one in
  both parts with two different URLs, one whose Part-2 page has no link, one in Part 1
  only and one in Part 2 only.\<close>

definition no_link_page :: "string + string" where
  "no_link_page = Inr ''<p>no link here</p>''"

definition mixed_input :: input where
  "mixed_input =
     \<lparr>cdspec_1 = Some [(''bob_checklist.csv'', good_csv ''https://arcg.is/B1''),
                       (''carol_checklist.csv'', good_csv ''https://arcg.is/C3''),
                       (''alice_checklist.csv'', good_csv ''https://arcg.is/A1'')],
      cdspec_2 = Some [(''zed_part2.html'', link_page ''https://arcg.is/Z9''),
                       (''alice_part2.html'', link_page ''https://arcg.is/B2''),
                       (''bob_part2.html'', no_link_page)],
      pandas = True, log_write = writable\<rparr>"

definition bob_record :: student_record where
  "bob_record =
     [(''student'', VStr ''bob''), (''community_district'', VStr ''CD 1''),
      (''storymap_url'', VStr ''https://arcg.is/B1''), (''needs_review'', VBool True),
      (''part_1_completed'', VBool True), (''part_2_error'', VStr ''No URL found in HTML'')]"

definition carol_record :: student_record where
  "carol_record = part1_record ''carol'' (Some ''CD 1'') (Some ''https://arcg.is/C3'') False"

text \<open>A student with two Part-2 pages: the first differs from Part 1, the second agrees.\<close>

definition two_pages_input :: input where
  "two_pages_input =
     \<lparr>cdspec_1 = Some [(''alice_checklist.csv'', good_csv ''https://arcg.is/A1'')],
      cdspec_2 = Some [(''alice_part2a.html'', link_page ''https://arcg.is/B2''),
                       (''alice_part2b.html'', link_page ''https://arcg.is/A1'')],
      pandas = True, log_write = writable\<rparr>"

definition two_pages_record :: student_record where
  "two_pages_record =
     [(''student'', VStr ''alice''), (''community_district'', VStr ''CD 1''),
      (''storymap_url'', VStr ''https://arcg.is/A1''), (''needs_review'', VBool False),
      (''part_1_completed'', VBool True), (''storymap_url_2'', VStr ''https://arcg.is/A1''),
      (''part_2_completed'', VBool True), (''url_mismatch'', VBool True)]"

text \<open>A Part-2 page whose link is a single slash.\<close>

definition slash_page_input :: input where
  "slash_page_input =
     \<lparr>cdspec_1 = Some [(''alice_checklist.csv'', good_csv ''https://arcg.is/A1'')],
      cdspec_2 = Some [(''alice_part2.html'', link_page ''/'')],
      pandas = True, log_write = writable\<rparr>"

definition slash_page_record :: student_record where
  "slash_page_record =
     [(''student'', VStr ''alice''), (''community_district'', VStr ''CD 1''),
      (''storymap_url'', VStr ''https://arcg.is/A1''), (''needs_review'', VBool False),
      (''part_1_completed'', VBool True), (''storymap_url_2'', VStr ''/''),
      (''part_2_completed'', VBool True)]"

text \<open>A Part-1 file whose URL cell is a single slash.\<close>

definition slash_cell_input :: input where
  "slash_cell_input =
     \<lparr>cdspec_1 = Some [(''alice_checklist.csv'', good_csv ''/'')],
      cdspec_2 = Some [(''alice_part2.html'', link_page ''https://arcg.is/A1'')],
      pandas = True, log_write = writable\<rparr>"

text \<open>A student whose only file is a Part-2 page without a link.\<close>

definition lone_part2_input :: input where
  "lone_part2_input =
     \<lparr>cdspec_1 = Some [], cdspec_2 = Some [(''bob_part2.html'', no_link_page)], pandas = True, log_write = writable\<rparr>"

definition slash_cell_record :: student_record where
  "slash_cell_record =
     [(''student'', VStr ''alice''), (''community_district'', VStr ''CD 1''),
      (''storymap_url'', VStr ''https://arcg.is/A1''), (''needs_review'', VBool False),
      (''part_1_completed'', VBool True), (''storymap_url_2'', VStr ''https://arcg.is/A1''),
      (''part_2_completed'', VBool True)]"

definition zed_record :: student_record where
  "zed_record = part2_record ''zed'' ''https://arcg.is/Z9''"

text \<open>The output array and the log of the run on \<open>mixed_input\<close>.\<close>

definition mixed_records :: "student_record list" where
  "mixed_records = [mismatch_record, bob_record, carol_record, zed_record]"

definition mixed_log :: "string list" where
  "mixed_log =
     [''URL MISMATCH: alice - Part 1: https://arcg.is/A1 vs Part 2: https://arcg.is/B2'',
      ''PART 2 FAIL: Could not extract URL from bob_part2.html'',
      ''NEW STUDENT: zed found in Part 2.'']"

text \<open>Two students, one with two Part-2 pages and one with a single page.\<close>

definition other_twice_input :: input where
  "other_twice_input =
     \<lparr>cdspec_1 = Some [(''alice_checklist.csv'', good_csv ''https://arcg.is/A1''),
                       (''bob_checklist.csv'', good_csv ''https://arcg.is/B1'')],
      cdspec_2 = Some [(''bob_part2a.html'', link_page ''https://arcg.is/B9''),
                       (''bob_part2b.html'', link_page ''https://arcg.is/B1''),
                       (''alice_part2.html'', link_page ''https://arcg.is/B2'')],
      pandas = True, log_write = writable\<rparr>"

definition bob_twice_record :: student_record where
  "bob_twice_record =
     [(''student'', VStr ''bob''), (''community_district'', VStr ''CD 1''),
      (''storymap_url'', VStr ''https://arcg.is/B1''), (''needs_review'', VBool False),
      (''part_1_completed'', VBool True), (''storymap_url_2'', VStr ''https://arcg.is/B1''),
      (''part_2_completed'', VBool True), (''url_mismatch'', VBool True)]"

definition other_twice_log :: "string list" where
  "other_twice_log =
     [''URL MISMATCH: alice - Part 1: https://arcg.is/A1 vs Part 2: https://arcg.is/B2'',
      ''URL MISMATCH: bob - Part 1: https://arcg.is/B1 vs Part 2: https://arcg.is/B9'']"

text \<open>A record of the reviewed data file with the flag and no second URL.\<close>

definition flag_only_record :: student_record where
  "flag_only_record =
     [(''student'', VStr ''alice''), (''storymap_url'', VStr ''https://arcg.is/A1''),
      (''url_mismatch'', VBool True)]"

text \<open>A log that cannot be written, and a file that cannot be read.\<close>

definition full_disk :: log_write where
  "full_disk lg message = Some ''[Errno 28] No space left on device''"

definition unreadable :: "string + string" where
  "unreadable = Inl ''[Errno 13] Permission denied''"

section \<open>Properties\<close>

subsection \<open>The row extractor on the example table\<close>

text \<open>
  C6. On the two-row table of the example the row extractor returns no community
  district, the URL \<open>https://arcg.is/ABC123\<close> and the issues flag; the Part-1 loop body
  then stores a record whose \<open>needs_review\<close> is true (and logs the missing district).
\<close>

theorem extract_from_rows_example:
  "extract_from_rows example_table = (None, Some ''https://arcg.is/ABC123'', True)
   \<and> part1_file writable pd
        (''alice_checklist.csv'',
         \<lparr>pk_signature = False, csv_rows = Inr example_table, read_excel = x, read_csv = y\<rparr>)
        ([], [])
       = Inr ([(''alice'', part1_record ''alice'' None (Some ''https://arcg.is/ABC123'') True)],
              [''MISSING DATA: alice_checklist.csv - No Community District found.''])
   \<and> get (part1_record ''alice'' None (Some ''https://arcg.is/ABC123'') True) ''needs_review''
       = VBool True"
  by code_simp

theorem extract_from_rows_example_witness:
  "extract_from_rows example_table = (None, Some ''https://arcg.is/ABC123'', True)
   \<and> part1_file writable True
        (''alice_checklist.csv'',
         \<lparr>pk_signature = False, csv_rows = Inr example_table,
            read_excel = Inl ''no excel'', read_csv = Inl ''no csv''\<rparr>)
        ([], [])
       = Inr ([(''alice'', part1_record ''alice'' None (Some ''https://arcg.is/ABC123'') True)],
              [''MISSING DATA: alice_checklist.csv - No Community District found.''])
   \<and> get (part1_record ''alice'' None (Some ''https://arcg.is/ABC123'') True) ''needs_review''
       = VBool True"
  by (rule extract_from_rows_example)

subsection \<open>The HTML URL extractor\<close>

lemma anchor_meta_example: "re_search anchor_pattern meta_example = None"
  by code_simp

lemma meta_meta_example: "re_search meta_pattern meta_example = Some ''https://arcg.is/XYZ789''"
  by code_simp

lemma anchor_both_example: "re_search anchor_pattern both_example = Some ''https://arcg.is/A1''"
  by code_simp

lemma meta_both_example: "re_search meta_pattern both_example = Some ''https://arcg.is/B2''"
  by code_simp

text \<open>
  C7, as stated, fails in its last part: when the file cannot be read the handler calls
  \<open>log_error\<close>, and when the log cannot be written either, the exception of that call
  leaves \<open>extract_url_from_html\<close>.
\<close>

theorem read_error_log_failure_raises:
  "extract_url_from_html full_disk ''lecture_checklists/cdspec_2/alice_part2.html'' unreadable []
     = Inl ''[Errno 28] No space left on device''
   \<and> process_files
        \<lparr>cdspec_1 = Some [], cdspec_2 = Some [(''alice_part2.html'', unreadable)],
         pandas = True, log_write = full_disk\<rparr>
     = Inl ''[Errno 28] No space left on device''"
  by code_simp

text \<open>
  C7, amended. When the anchor pattern matches, its group is the result; only when it
  does not match is the result that of the meta-refresh pattern; the log is left as it
  is and nothing is raised. The example page has no anchor and gives
  \<open>https://arcg.is/XYZ789\<close>. On a read error the function logs one line and returns no
  URL when the line can be written, and raises the exception of the log write when it
  cannot.
\<close>

theorem extract_url_from_html_order:
  "(re_search anchor_pattern content = Some m \<longrightarrow>
      extract_url_from_html w filepath (Inr content) lg = Inr (Some m, lg))
   \<and> (re_search anchor_pattern content = None \<longrightarrow>
      extract_url_from_html w filepath (Inr content) lg
        = Inr (re_search meta_pattern content, lg))
   \<and> re_search anchor_pattern meta_example = None
   \<and> extract_url_from_html w filepath (Inr meta_example) lg
       = Inr (Some ''https://arcg.is/XYZ789'', lg)
   \<and> (w lg (''HTML FAIL: '' @ filepath @ '' - '' @ e) = None \<longrightarrow>
        extract_url_from_html w filepath (Inl e) lg
          = Inr (None, lg @ [''HTML FAIL: '' @ filepath @ '' - '' @ e]))
   \<and> (w lg (''HTML FAIL: '' @ filepath @ '' - '' @ e) = Some e' \<longrightarrow>
        extract_url_from_html w filepath (Inl e) lg = Inl e')"
  by (simp add: anchor_meta_example meta_meta_example extract_url_from_html_def find_url_def
      log_error_def split: option.splits)

theorem extract_url_from_html_order_witness:
  "re_search anchor_pattern both_example = Some ''https://arcg.is/A1''
   \<and> re_search meta_pattern both_example = Some ''https://arcg.is/B2''
   \<and> extract_url_from_html full_disk ''f'' (Inr both_example) [] = Inr (Some ''https://arcg.is/A1'', [])
   \<and> re_search anchor_pattern meta_example = None
   \<and> extract_url_from_html full_disk ''f'' (Inr meta_example) []
       = Inr (re_search meta_pattern meta_example, [])
   \<and> extract_url_from_html writable ''f'' (Inl ''denied'') [''earlier line'']
       = Inr (None, [''earlier line'', ''HTML FAIL: f - denied''])
   \<and> extract_url_from_html full_disk ''f'' (Inl ''denied'') [''earlier line'']
       = Inl ''[Errno 28] No space left on device''"
  using extract_url_from_html_order
          [of both_example "''https://arcg.is/A1''" full_disk "''f''" "[]"]
    extract_url_from_html_order [of meta_example _ full_disk "''f''" "[]"]
    extract_url_from_html_order
          [of _ _ writable "''f''" "[''earlier line'']" "''denied''"]
    extract_url_from_html_order
          [of _ _ full_disk "''f''" "[''earlier line'']" "''denied''"
              "''[Errno 28] No space left on device''"]
    anchor_both_example meta_both_example anchor_meta_example
  by (simp add: writable_def full_disk_def)

subsection \<open>A missing source directory\<close>

text \<open>
  C5. A missing Part-1 directory is logged once and Part 2 still runs. A missing Part-2
  directory is not logged: the run is the one on an empty Part-2 directory, and with an
  empty Part-1 directory its log is empty, whatever writing to the log would give.
\<close>

theorem missing_part2_directory_not_logged:
  "process_files (inp\<lparr>cdspec_2 := None\<rparr>) = process_files (inp\<lparr>cdspec_2 := Some []\<rparr>)
   \<and> process_files \<lparr>cdspec_1 = Some [], cdspec_2 = None, pandas = pd, log_write = w\<rparr>
       = Inr ([], [])
   \<and> process_files \<lparr>cdspec_1 = None, cdspec_2 = Some [], pandas = pd, log_write = writable\<rparr>
       = Inr ([], [''CRITICAL: Directory not found: lecture_checklists/cdspec_1''])"
  by (simp add: process_files_def part1_phase_def part2_phase_def then_log_def log_error_def
      writable_def SOURCE_DIR_1_def split: option.splits sum.splits)

theorem missing_part2_directory_not_logged_witness:
  "process_files \<lparr>cdspec_1 = Some [], cdspec_2 = None, pandas = True, log_write = writable\<rparr>
     = Inr ([], [])
   \<and> process_files \<lparr>cdspec_1 = None, cdspec_2 = Some [], pandas = True, log_write = writable\<rparr>
       = Inr ([], [''CRITICAL: Directory not found: lecture_checklists/cdspec_1''])"
  using missing_part2_directory_not_logged [of _ True writable] by simp

subsection \<open>Entries the loops skip\<close>

lemma for_each_skip:
  "(\<And>x s. \<not> P x \<Longrightarrow> body x s = Inr s) \<Longrightarrow> for_each body (filter P xs) s = for_each body xs s"
  by (induction xs arbitrary: s) (auto split: sum.splits)

lemma part1_file_dot: "dot e \<Longrightarrow> part1_file w pd e st = Inr st"
  by (cases e) (simp add: part1_file_def dot_def)

lemma part2_file_skip: "\<not> (\<not> dot e \<and> html e) \<Longrightarrow> part2_file w e st = Inr st"
  by (cases e) (auto simp add: part2_file_def dot_def html_def)

lemma for_each_part1_filter:
  "for_each (part1_file w pd) (filter (\<lambda>e. \<not> dot e) xs) st = for_each (part1_file w pd) xs st"
  by (rule for_each_skip) (simp add: part1_file_dot)

lemma for_each_part2_filter:
  "for_each (part2_file w) (filter (\<lambda>e. \<not> dot e \<and> html e) xs) st
     = for_each (part2_file w) xs st"
  by (rule for_each_skip) (simp add: part2_file_skip)

text \<open>
  C10. The loop body of Part 1 returns the state (records and log) as it got it for a
  file whose name starts with a dot, and so does the loop body of Part 2 for a file whose
  name starts with a dot or does not end with \<open>.html\<close>, without raising; a run gives the
  same result (the same array and the same log, or the same exception) as the run on the
  directories without these files.
\<close>

theorem skipped_files_leave_no_trace:
  "(startswith ''.'' filename \<longrightarrow> part1_file w pd (filename, f) st = Inr st)
   \<and> (startswith ''.'' filename \<or> \<not> endswith ''.html'' filename \<longrightarrow>
        part2_file w (filename, file) st = Inr st)
   \<and> process_files inp =
       process_files (inp\<lparr>
         cdspec_1 := map_option (filter (\<lambda>e. \<not> dot e)) (cdspec_1 inp),
         cdspec_2 := map_option (filter (\<lambda>e. \<not> dot e \<and> html e)) (cdspec_2 inp)\<rparr>)"
proof -
  let ?inp = "inp\<lparr>
         cdspec_1 := map_option (filter (\<lambda>e. \<not> dot e)) (cdspec_1 inp),
         cdspec_2 := map_option (filter (\<lambda>e. \<not> dot e \<and> html e)) (cdspec_2 inp)\<rparr>"
  have 1: "part1_phase ?inp st = part1_phase inp st" for st
    by (simp add: part1_phase_def sym[OF filter_sort] for_each_part1_filter split: option.splits)
  have 2: "part2_phase ?inp st = part2_phase inp st" for st
    by (simp add: part2_phase_def sym[OF filter_sort] for_each_part2_filter split: option.splits)
  have 3: "startswith ''.'' filename \<longrightarrow> part1_file w pd (filename, f) st = Inr st"
    using part1_file_dot [of "(filename, f)"] by (simp add: dot_def)
  have 4: "startswith ''.'' filename \<or> \<not> endswith ''.html'' filename
             \<longrightarrow> part2_file w (filename, file) st = Inr st"
    using part2_file_skip [of "(filename, file)"] by (auto simp: dot_def html_def)
  have 5: "process_files inp = process_files ?inp"
    by (simp only: process_files_def 1 2)
  from 3 4 5 show ?thesis by blast
qed

theorem skipped_files_leave_no_trace_witness:
  "startswith ''.'' ''.DS_Store''
   \<and> part1_file writable True (''.DS_Store'', good_csv ''https://arcg.is/Z9'')
         ([], [''earlier line''])
       = Inr ([], [''earlier line''])
   \<and> \<not> endswith ''.html'' ''carol_notes.txt''
   \<and> part2_file writable (''carol_notes.txt'', link_page ''https://arcg.is/C3'')
         ([], [''earlier line''])
       = Inr ([], [''earlier line''])
   \<and> process_files skipping_input =
       process_files
         \<lparr>cdspec_1 = Some [(''alice_checklist.csv'', good_csv ''https://arcg.is/A1'')],
          cdspec_2 = Some [(''alice_part2.html'', link_page ''https://arcg.is/A1'')],
          pandas = True, log_write = writable\<rparr>"
proof -
  have a: "startswith ''.'' ''.DS_Store''" by code_simp
  have b: "\<not> endswith ''.html'' ''carol_notes.txt''" by code_simp
  have c1: "map_option (filter (\<lambda>e. \<not> dot e)) (cdspec_1 skipping_input)
              = Some [(''alice_checklist.csv'', good_csv ''https://arcg.is/A1'')]"
    by code_simp
  have c2: "map_option (filter (\<lambda>e. \<not> dot e \<and> html e)) (cdspec_2 skipping_input)
              = Some [(''alice_part2.html'', link_page ''https://arcg.is/A1'')]"
    by code_simp
  have c: "skipping_input\<lparr>
         cdspec_1 := map_option (filter (\<lambda>e. \<not> dot e)) (cdspec_1 skipping_input),
         cdspec_2 := map_option (filter (\<lambda>e. \<not> dot e \<and> html e)) (cdspec_2 skipping_input)\<rparr>
       = \<lparr>cdspec_1 = Some [(''alice_checklist.csv'', good_csv ''https://arcg.is/A1'')],
          cdspec_2 = Some [(''alice_part2.html'', link_page ''https://arcg.is/A1'')],
          pandas = True, log_write = writable\<rparr>"
    unfolding c1 c2 by (simp add: skipping_input_def)
  from skipped_files_leave_no_trace
         [of "''.DS_Store''" writable True "good_csv ''https://arcg.is/Z9''"
             "([], [''earlier line''])" "link_page ''https://arcg.is/C3''" skipping_input]
       skipped_files_leave_no_trace
         [of "''carol_notes.txt''" writable True "good_csv ''https://arcg.is/Z9''"
             "([], [''earlier line''])" "link_page ''https://arcg.is/C3''" skipping_input]
       a b c
  show ?thesis by simp
qed

subsection \<open>Images that exist are skipped\<close>

lemma keeps_refl: "keeps fs fs"
  by (simp add: keeps_def)

lemma keeps_trans: "keeps a b \<Longrightarrow> keeps b c \<Longrightarrow> keeps a c"
  by (simp add: keeps_def)

lemma fold_mkdir: "fold (\<lambda>q m. m(q \<mapsto> Dir)) qs fs x = (if x \<in> set qs then Some Dir else fs x)"
  by (induction qs arbitrary: fs) auto

lemma makedirs_keeps:
  assumes a: "makedirs p fs = Inr fs'"
  shows "keeps fs fs'"
proof -
  from a have nf: "\<not> list_ex (is_file fs) (dir_chain p)"
    and eq: "fs' = fold (\<lambda>q m. m(q \<mapsto> Dir)) (dir_chain p) fs"
    by (auto simp: makedirs_def split: if_splits)
  show ?thesis unfolding keeps_def
  proof (intro allI impI)
    fix q n assume h: "fs q = Some n"
    show "fs' q = Some n"
    proof (cases "q \<in> set (dir_chain p)")
      case True
      with nf have "\<not> is_file fs q" by (auto simp: list_ex_iff)
      with h have "n = Dir" by (cases n) (auto simp: is_file_def)
      with True h show ?thesis by (simp add: eq fold_mkdir)
    next
      case False
      with h show ?thesis by (simp add: eq fold_mkdir)
    qed
  qed
qed

lemma process_url_exists:
  "files w (path_join student_dir (label @ ''.png'')) \<noteq> None \<Longrightarrow>
   files (process_url browse student_dir (label, url) w) = files w
   \<and> navigations (process_url browse student_dir (label, url) w) = navigations w
   \<and> crashed (process_url browse student_dir (label, url) w) = crashed w"
  by (simp add: process_url_def print_line_def)

lemma process_url_keeps: "keeps (files w) (files (process_url browse student_dir pair w))"
  by (cases pair) (auto simp: process_url_def print_line_def keeps_def Let_def split: visit.splits)

lemma fold_process_url_keeps:
  "keeps (files w) (files (fold (process_url browse student_dir) pairs w))"
proof (induction pairs arbitrary: w)
  case Nil
  show ?case by (simp add: keeps_refl)
next
  case (Cons p ps)
  show ?case using keeps_trans [OF process_url_keeps Cons.IH] by simp
qed

lemma fold_process_url_exists:
  "list_all (\<lambda>(label, url). files w (path_join student_dir (label @ ''.png'')) \<noteq> None) pairs \<Longrightarrow>
   navigations (fold (process_url browse student_dir) pairs w) = navigations w"
proof (induction pairs arbitrary: w)
  case Nil
  show ?case by simp
next
  case (Cons p ps)
  obtain label url where p: "p = (label, url)" by (cases p)
  from Cons.prems p have e: "files w (path_join student_dir (label @ ''.png'')) \<noteq> None"
    and rest: "list_all (\<lambda>(label, url). files w (path_join student_dir (label @ ''.png'')) \<noteq> None) ps"
    by auto
  let ?w = "process_url browse student_dir (label, url) w"
  from process_url_exists [OF e]
  have f: "files ?w = files w" and n: "navigations ?w = navigations w"
    by auto
  from rest f
  have "list_all (\<lambda>(label, url). files ?w (path_join student_dir (label @ ''.png'')) \<noteq> None) ps"
    by simp
  from Cons.IH [OF this] n p show ?case by simp
qed

lemma process_record_keeps: "keeps (files w) (files (process_record browse r w))"
proof (cases "get r ''student''")
  case (VStr s)
  let ?w = "print_line (''Processing '' @ s @ ''...'') w"
  show ?thesis
  proof (cases "makedirs (path_join OUTPUT_DIR s) (files w)")
    case (Inl e)
    with VStr show ?thesis by (simp add: process_record_def print_line_def keeps_refl Let_def)
  next
    case (Inr fs)
    have "keeps fs (files (fold (process_url browse (path_join OUTPUT_DIR s))
            (urls_to_process r) (?w\<lparr>files := fs\<rparr>)))"
      using fold_process_url_keeps [of "?w\<lparr>files := fs\<rparr>"] by simp
    with makedirs_keeps [OF Inr]
    have "keeps (files w) (files (fold (process_url browse (path_join OUTPUT_DIR s))
            (urls_to_process r) (?w\<lparr>files := fs\<rparr>)))"
      by (rule keeps_trans)
    with VStr Inr show ?thesis
      by (simp add: process_record_def print_line_def keeps_refl Let_def)
  qed
qed (simp_all add: process_record_def print_line_def keeps_refl Let_def)

lemma keeps_exist: "keeps fs fs' \<Longrightarrow> images_exist fs r \<Longrightarrow> images_exist fs' r"
  by (auto simp: keeps_def images_exist_def list_all_iff split: val.splits)

lemma process_record_exists:
  assumes a: "images_exist (files w) r"
  shows "navigations (process_record browse r w) = navigations w"
proof (cases "get r ''student''")
  case (VStr s)
  show ?thesis
  proof (cases "makedirs (path_join OUTPUT_DIR s) (files w)")
    case (Inl e)
    with VStr show ?thesis by (simp add: process_record_def print_line_def Let_def)
  next
    case (Inr fs)
    let ?w = "print_line (''Processing '' @ s @ ''...'') w\<lparr>files := fs\<rparr>"
    from keeps_exist [OF makedirs_keeps [OF Inr] a] VStr
    have "list_all
            (\<lambda>(label, url). files ?w (path_join (path_join OUTPUT_DIR s) (label @ ''.png'')) \<noteq> None)
            (urls_to_process r)"
      by (simp add: images_exist_def)
    from fold_process_url_exists [OF this]
    have "navigations (fold (process_url browse (path_join OUTPUT_DIR s)) (urls_to_process r) ?w)
            = navigations w"
      by (simp add: print_line_def)
    with VStr Inr show ?thesis
      by (simp add: process_record_def print_line_def Let_def)
  qed
qed (simp_all add: process_record_def print_line_def Let_def)

lemma scrape_records_keeps: "keeps (files w) (files (scrape_records browse data w))"
proof (induction data arbitrary: w)
  case Nil
  show ?case by (simp add: keeps_refl)
next
  case (Cons r rs)
  show ?case using keeps_trans [OF process_record_keeps Cons.IH] process_record_keeps
    by (simp add: Let_def)
qed

lemma scrape_records_exists:
  "list_all (images_exist (files w)) data \<Longrightarrow>
   navigations (scrape_records browse data w) = navigations w"
proof (induction data arbitrary: w)
  case Nil
  show ?case by simp
next
  case (Cons r rs)
  let ?w = "process_record browse r w"
  from Cons.prems have a: "images_exist (files w) r" and b: "list_all (images_exist (files w)) rs"
    by auto
  from b have "list_all (images_exist (files ?w)) rs"
    using keeps_exist [OF process_record_keeps] by (auto simp: list_all_iff)
  from Cons.IH [OF this] process_record_exists [OF a] show ?case by (simp add: Let_def)
qed

lemma scrape_storymaps_keeps: "keeps (files w) (files (scrape_storymaps browse data w))"
proof (cases "makedirs OUTPUT_DIR (files w)")
  case (Inl e)
  then show ?thesis by (simp add: scrape_storymaps_def keeps_refl)
next
  case (Inr fs)
  have "keeps fs (files (scrape_records browse data (w\<lparr>files := fs\<rparr>)))"
    using scrape_records_keeps [of "w\<lparr>files := fs\<rparr>" browse data] by simp
  from keeps_trans [OF makedirs_keeps [OF Inr] this] Inr
  show ?thesis by (simp add: scrape_storymaps_def)
qed

lemma scrape_storymaps_exists:
  assumes "list_all (images_exist (files w)) data"
  shows "navigations (scrape_storymaps browse data w) = navigations w"
proof (cases "makedirs OUTPUT_DIR (files w)")
  case (Inl e)
  then show ?thesis by (simp add: scrape_storymaps_def)
next
  case (Inr fs)
  from assms keeps_exist [OF makedirs_keeps [OF Inr]]
  have "list_all (images_exist (files (w\<lparr>files := fs\<rparr>))) data" by (auto simp: list_all_iff)
  from scrape_records_exists [OF this] Inr show ?thesis by (simp add: scrape_storymaps_def)
qed

text \<open>
  C8. A pair whose output image exists is skipped: the loop body navigates nowhere and
  leaves the file system as it is. When the images of every worklist exist, a run
  navigates nowhere. In any run, every file and directory that existed before is there
  afterwards with the same content.
\<close>

theorem existing_images_skipped:
  "(files w (path_join student_dir (label @ ''.png'')) \<noteq> None \<longrightarrow>
      files (process_url browse student_dir (label, url) w) = files w
      \<and> navigations (process_url browse student_dir (label, url) w) = navigations w)
   \<and> (list_all (images_exist (files w)) data \<longrightarrow>
        navigations (scrape_storymaps browse data w) = navigations w)
   \<and> (files w q = Some n \<longrightarrow> files (scrape_storymaps browse data w) q = Some n)"
  using process_url_exists [of w student_dir label browse url]
    scrape_storymaps_exists [of w data browse] scrape_storymaps_keeps [of w browse data]
  by (simp add: keeps_def)

theorem existing_images_skipped_witness:
  "files archived (path_join ''processing/storymaps_archive/alice'' (''part1'' @ ''.png'')) \<noteq> None
   \<and> list_all (images_exist (files archived)) [mismatch_record]
   \<and> files archived ''processing/storymaps_archive/alice/part2.png'' = Some (File ''old 2'')
   \<and> files (process_url saving_browser ''processing/storymaps_archive/alice''
              (''part1'', VStr ''https://arcg.is/A1'') archived) = files archived
   \<and> navigations (scrape_storymaps saving_browser [mismatch_record] archived) = []
   \<and> files (scrape_storymaps saving_browser [mismatch_record] archived)
        ''processing/storymaps_archive/alice/part2.png'' = Some (File ''old 2'')"
proof -
  have a: "files archived (path_join ''processing/storymaps_archive/alice'' (''part1'' @ ''.png''))
             \<noteq> None"
    by code_simp
  have b: "list_all (images_exist (files archived)) [mismatch_record]" by code_simp
  have c: "files archived ''processing/storymaps_archive/alice/part2.png'' = Some (File ''old 2'')"
    by code_simp
  have d: "navigations archived = []" by code_simp
  from existing_images_skipped
         [of archived "''processing/storymaps_archive/alice''" "''part1''" saving_browser
             "VStr ''https://arcg.is/A1''" "[mismatch_record]"
             "''processing/storymaps_archive/alice/part2.png''" "File ''old 2''"]
       a b c d
  show ?thesis by simp
qed


subsection \<open>Runs that end without an exception\<close>

lemma get_update: "get (AList.update k v r) k' = (if k' = k then v else get r k')"
  by (simp add: get_def update_conv')

lemma set_update_cases:
  "x \<in> set (AList.update k v al) \<Longrightarrow> x = (k, v) \<or> x \<in> set al"
  by (induction al) (auto split: if_splits)

lemma log_error_writable: "log_error writable message lg = Inr (lg @ [message])"
  by (simp add: log_error_def writable_def)

lemma then_log_writable: "then_log writable message st = Inr (fst st, snd st @ [message])"
  by (simp add: then_log_def log_error_writable)

lemma then_log_Inr: "then_log w message st = Inr st' \<Longrightarrow> fst st' = fst st"
  by (auto simp: then_log_def split: sum.splits)

lemma for_each_invariant:
  "(\<And>x s s'. x \<in> set xs \<Longrightarrow> I s \<Longrightarrow> body x s = Inr s' \<Longrightarrow> I s') \<Longrightarrow> I s \<Longrightarrow>
   for_each body xs s = Inr s' \<Longrightarrow> I s'"
proof (induction xs arbitrary: s)
  case Nil
  then show ?case by simp
next
  case (Cons x xs)
  from Cons.prems(3) obtain s1 where 1: "body x s = Inr s1" and 2: "for_each body xs s1 = Inr s'"
    by (auto split: sum.splits)
  from Cons.prems(1) [OF _ Cons.prems(2) 1] have i: "I s1" by simp
  have "\<And>y t t'. y \<in> set xs \<Longrightarrow> I t \<Longrightarrow> body y t = Inr t' \<Longrightarrow> I t'"
    using Cons.prems(1) by (meson list.set_intros(2))
  from Cons.IH [OF this i 2] show ?case .
qed

lemma for_each_total:
  "(\<And>x s. \<exists>s'. body x s = Inr s') \<Longrightarrow> \<exists>s'. for_each body xs s = Inr s'"
proof (induction xs arbitrary: s)
  case Nil
  show ?case by simp
next
  case (Cons x xs)
  from Cons.prems obtain s1 where 1: "body x s = Inr s1" by blast
  from Cons.IH [OF Cons.prems, of s1] obtain s' where "for_each body xs s1 = Inr s'" by blast
  with 1 show ?case by simp
qed

lemma read_part1_writable: "\<exists>res. read_part1 writable pd filename f lg = Inr res"
proof (cases "csv_block writable filename f lg")
  case (Inr res)
  then show ?thesis by (simp add: read_part1_def)
next
  case (Inl e_csv)
  then show ?thesis
    by (auto simp: read_part1_def log_error_writable split: prod.splits sum.splits)
qed

lemma part1_file_writable: "\<exists>st'. part1_file writable pd e st = Inr st'"
proof -
  obtain filename f where e: "e = (filename, f)" by (cases e)
  obtain cd url nr lg1 where r: "read_part1 writable pd filename f (snd st) = Inr ((cd, url, nr), lg1)"
    using read_part1_writable [of pd filename f "snd st"] by (metis surj_pair)
  show ?thesis
    by (simp add: e part1_file_def r log_error_writable Let_def)
qed

lemma part2_fail_writable: "\<exists>st'. part2_fail writable filename s st = Inr st'"
  by (simp add: part2_fail_def then_log_writable split: option.splits)

lemma part2_merge_writable: "\<exists>st'. part2_merge writable s u st = Inr st'"
  by (simp add: part2_merge_def then_log_writable Let_def split: option.splits)

lemma part2_file_writable: "\<exists>st'. part2_file writable e st = Inr st'"
proof -
  obtain filename page where e: "e = (filename, page)" by (cases e)
  obtain u lg where x:
    "extract_url_from_html writable (path_join SOURCE_DIR_2 filename) page (snd st) = Inr (u, lg)"
    by (cases page) (simp_all add: extract_url_from_html_def log_error_writable)
  show ?thesis
    by (cases u)
      (simp_all add: e part2_file_def x Let_def part2_fail_writable part2_merge_writable
        del: split_paired_Ex)
qed

lemma part1_phase_writable:
  "log_write inp = writable \<Longrightarrow> \<exists>st'. part1_phase inp st = Inr st'"
  by (simp add: part1_phase_def then_log_writable for_each_total part1_file_writable
      del: split_paired_Ex split: option.splits)

lemma part2_phase_writable:
  "log_write inp = writable \<Longrightarrow> \<exists>st'. part2_phase inp st = Inr st'"
  by (simp add: part2_phase_def for_each_total part2_file_writable del: split_paired_Ex
      split: option.splits)

lemma process_files_writable:
  assumes "log_write inp = writable"
  shows "\<exists>data lg. process_files inp = Inr (data, lg)"
proof -
  from part1_phase_writable [OF assms] obtain st1 where 1: "part1_phase inp ([], []) = Inr st1"
    by blast
  from part2_phase_writable [OF assms] obtain st where 2: "part2_phase inp st1 = Inr st"
    by blast
  from 1 2 show ?thesis by (simp add: process_files_def)
qed

lemma process_files_Inr:
  assumes "process_files inp = Inr (data, lg)"
  obtains st1 st where "part1_phase inp ([], []) = Inr st1" and "part2_phase inp st1 = Inr st"
    and "data = map snd (fst st)" and "lg = snd st"
  using assms by (auto simp: process_files_def split: sum.splits)

subsection \<open>The records of a run\<close>

lemma part2_fail_Inr:
  "part2_fail w filename s st = Inr st' \<Longrightarrow>
   fst st' =
     (case map_of (fst st) s of
        Some r \<Rightarrow> AList.update s (flag_record r) (fst st)
      | None \<Rightarrow> fst st)"
  by (auto simp: part2_fail_def flag_record_def split: sum.splits option.splits
      dest!: then_log_Inr)

lemma part2_merge_Inr:
  "part2_merge w s u st = Inr st' \<Longrightarrow>
   fst st' =
     AList.update s
       (case map_of (fst st) s of
          Some r0 \<Rightarrow> merge_record u r0
        | None \<Rightarrow> part2_record s u)
       (fst st)"
  by (auto simp: part2_merge_def merge_record_def Let_def split: option.splits if_splits
      dest!: then_log_Inr)

lemma extract_url_from_html_Inr:
  "extract_url_from_html w filepath file lg = Inr (u, lg') \<Longrightarrow>
   u = (case file of Inl e \<Rightarrow> None | Inr content \<Rightarrow> find_url content)"
  by (auto simp: extract_url_from_html_def split: sum.splits)

lemma part2_file_Inr:
  assumes "part2_file w e st = Inr st'"
  shows "fst st' = part2_step e (fst st)"
proof -
  obtain filename page where e: "e = (filename, page)" by (cases e)
  let ?s = "split_first CHR ''_'' filename"
  have se: "student_of e = ?s" by (simp add: e student_of_def)
  show ?thesis
  proof (cases "dot e \<or> \<not> html e")
    case True
    with assms e show ?thesis by (auto simp: part2_file_def part2_step_def dot_def html_def)
  next
    case False
    with assms e obtain u lg where
      x: "extract_url_from_html w (path_join SOURCE_DIR_2 filename) page (snd st) = Inr (u, lg)"
      and r: "(case u of
                 None \<Rightarrow> part2_fail w filename ?s (fst st, lg)
               | Some u \<Rightarrow>
                   if u = [] then part2_fail w filename ?s (fst st, lg)
                   else part2_merge w ?s u (fst st, lg)) = Inr st'"
      by (auto simp: part2_file_def dot_def html_def Let_def split: sum.splits)
    from extract_url_from_html_Inr [OF x] e
    have u: "url_of e = (case u of None \<Rightarrow> None | Some u \<Rightarrow> if u = [] then None else Some u)"
      by (simp add: url_of_def split: sum.splits option.splits)
    show ?thesis
    proof (cases "url_of e")
      case None
      with u r have "part2_fail w filename ?s (fst st, lg) = Inr st'"
        by (auto split: option.splits if_splits)
      from part2_fail_Inr [OF this] None False show ?thesis
        by (simp add: part2_step_def se split: option.splits)
    next
      case (Some v)
      with u r have "part2_merge w ?s v (fst st, lg) = Inr st'"
        by (auto split: option.splits if_splits)
      from part2_merge_Inr [OF this] Some False show ?thesis
        by (simp add: part2_step_def se split: option.splits)
    qed
  qed
qed

lemma for_each_part2_Inr:
  "for_each (part2_file w) es st = Inr st' \<Longrightarrow> fst st' = fold part2_step es (fst st)"
proof (induction es arbitrary: st)
  case Nil
  then show ?case by simp
next
  case (Cons e es)
  from Cons.prems obtain st1 where 1: "part2_file w e st = Inr st1"
    and 2: "for_each (part2_file w) es st1 = Inr st'"
    by (auto split: sum.splits)
  from Cons.IH [OF 2] part2_file_Inr [OF 1] show ?case by simp
qed

lemma part2_phase_Inr:
  "part2_phase inp st = Inr st' \<Longrightarrow>
   fst st' =
     (case cdspec_2 inp of
        None \<Rightarrow> fst st
      | Some es \<Rightarrow> fold part2_step (sort_key fst es) (fst st))"
  by (auto simp: part2_phase_def split: option.splits dest: for_each_part2_Inr)

lemma part1_file_Inr:
  assumes "part1_file w pd e st = Inr st'"
  shows "(dot e \<and> st' = st)
         \<or> (\<not> dot e \<and> (\<exists>cd url nr.
               fst st' = AList.update (student_of e) (part1_record (student_of e) cd url nr)
                           (fst st)))"
proof -
  obtain filename f where e: "e = (filename, f)" by (cases e)
  let ?s = "split_first CHR ''_'' filename"
  have se: "student_of e = ?s" by (simp add: e student_of_def)
  show ?thesis
  proof (cases "dot e")
    case True
    with assms e show ?thesis by (simp add: part1_file_def dot_def)
  next
    case False
    with assms e obtain cd url nr where
      "fst st' = AList.update ?s (part1_record ?s cd url nr) (fst st)"
      by (auto simp: part1_file_def dot_def Let_def split: sum.splits prod.splits if_splits)
    with False se show ?thesis by auto
  qed
qed

lemma fold_invariant:
  "(\<And>x s. x \<in> set xs \<Longrightarrow> I s \<Longrightarrow> I (f x s)) \<Longrightarrow> I s \<Longrightarrow> I (fold f xs s)"
  by (induction xs arbitrary: s) auto

lemma keys_part1_file:
  assumes "part1_file w pd e st = Inr st'"
  shows "fst ` set (fst st') = fst ` set (fst st) \<union> (if dot e then {} else {student_of e})"
  using part1_file_Inr [OF assms] by (elim disjE conjE exE) (simp_all add: dom_update)

lemma keys_for_each_part1:
  "for_each (part1_file w pd) es st = Inr st' \<Longrightarrow>
   fst ` set (fst st') = fst ` set (fst st) \<union> student_of ` {e \<in> set es. \<not> dot e}"
proof (induction es arbitrary: st)
  case Nil
  then show ?case by simp
next
  case (Cons e es)
  from Cons.prems obtain st1 where 1: "part1_file w pd e st = Inr st1"
    and 2: "for_each (part1_file w pd) es st1 = Inr st'"
    by (auto split: sum.splits)
  from Cons.IH [OF 2] keys_part1_file [OF 1] show ?case by auto
qed

lemma keys_part2_step:
  "fst ` set (part2_step e recs) = fst ` set recs \<union> (if with_url e then {student_of e} else {})"
proof -
  have "map_of recs (student_of e) = Some r \<Longrightarrow> student_of e \<in> fst ` set recs" for r
    by (metis map_of_SomeD fst_conv image_eqI)
  then show ?thesis
    by (auto simp: part2_step_def with_url_def dom_update split: option.splits)
qed

lemma keys_fold_part2:
  "fst ` set (fold part2_step es recs) = fst ` set recs \<union> student_of ` {e \<in> set es. with_url e}"
  by (induction es arbitrary: recs) (auto simp: keys_part2_step)

lemma keys_part1_phase:
  assumes "part1_phase inp st = Inr st'"
  shows "fst ` set (fst st') = fst ` set (fst st) \<union> part1_students inp"
proof (cases "cdspec_1 inp")
  case None
  with assms have "fst st' = fst st" by (auto simp: part1_phase_def dest: then_log_Inr)
  with None show ?thesis by (simp add: part1_students_def)
next
  case (Some es)
  with assms have
    "for_each (part1_file (log_write inp) (pandas inp)) (sort_key fst es) st = Inr st'"
    by (simp add: part1_phase_def)
  from keys_for_each_part1 [OF this] Some show ?thesis by (simp add: part1_students_def)
qed

lemma keys_part2_phase:
  "part2_phase inp st = Inr st' \<Longrightarrow>
   fst ` set (fst st') = fst ` set (fst st) \<union> part2_students inp"
  by (simp add: part2_phase_Inr part2_students_def keys_fold_part2 split: option.splits)

lemma distinct_part1_file:
  assumes "part1_file w pd e st = Inr st'" and "distinct (map fst (fst st))"
  shows "distinct (map fst (fst st'))"
  using part1_file_Inr [OF assms(1)] assms(2) by (auto simp: distinct_update)

lemma distinct_part2_step: "distinct (map fst recs) \<Longrightarrow> distinct (map fst (part2_step e recs))"
  by (simp add: part2_step_def distinct_update split: option.splits)

lemma distinct_part1_phase:
  assumes "part1_phase inp st = Inr st'" and "distinct (map fst (fst st))"
  shows "distinct (map fst (fst st'))"
proof (cases "cdspec_1 inp")
  case None
  with assms show ?thesis by (auto simp: part1_phase_def dest: then_log_Inr)
next
  case (Some es)
  with assms(1) have
    f: "for_each (part1_file (log_write inp) (pandas inp)) (sort_key fst es) st = Inr st'"
    by (simp add: part1_phase_def)
  show ?thesis
    by (rule for_each_invariant [where I = "\<lambda>s. distinct (map fst (fst s))", OF _ assms(2) f])
      (rule distinct_part1_file)
qed

lemma distinct_part2_phase:
  assumes "part2_phase inp st = Inr st'" and "distinct (map fst (fst st))"
  shows "distinct (map fst (fst st'))"
  using assms(2) unfolding part2_phase_Inr [OF assms(1)]
  by (auto split: option.splits
      intro: fold_invariant [where I = "\<lambda>recs. distinct (map fst recs)"] distinct_part2_step)

text \<open>A property of single records that all three ways of building or changing a
  record keep holds of every record of a run.\<close>

lemma part1_file_records:
  assumes "part1_file w pd e st = Inr st'"
    and "\<forall>(k, r) \<in> set (fst st). P k r"
    and "\<And>k cd url nr. P k (part1_record k cd url nr)"
  shows "\<forall>(k, r) \<in> set (fst st'). P k r"
  using part1_file_Inr [OF assms(1)] assms(2,3)
  by (auto dest!: set_update_cases)

lemma part1_phase_records:
  assumes "part1_phase inp ([], []) = Inr st1"
    and p1: "\<And>k cd url nr. P k (part1_record k cd url nr)"
  shows "\<forall>(k, r) \<in> set (fst st1). P k r"
proof (cases "cdspec_1 inp")
  case None
  with assms(1) show ?thesis by (auto simp: part1_phase_def dest: then_log_Inr)
next
  case (Some es)
  with assms(1) have
    f: "for_each (part1_file (log_write inp) (pandas inp)) (sort_key fst es) ([], []) = Inr st1"
    by (simp add: part1_phase_def)
  show ?thesis
    by (rule for_each_invariant [where I = "\<lambda>s. \<forall>(k, r) \<in> set (fst s). P k r", OF _ _ f])
      (simp_all add: part1_file_records p1)
qed

lemma part2_step_records:
  assumes "\<forall>(k, r) \<in> set recs. P k r"
    and "\<And>k r. P k r \<Longrightarrow> Q k r"
    and "\<And>r. P (student_of e) r \<Longrightarrow> without_url e \<Longrightarrow> Q (student_of e) (flag_record r)"
    and "\<And>r u. P (student_of e) r \<Longrightarrow> with_url e \<Longrightarrow> url_of e = Some u \<Longrightarrow>
           Q (student_of e) (merge_record u r)"
    and "\<And>u. with_url e \<Longrightarrow> url_of e = Some u \<Longrightarrow> Q (student_of e) (part2_record (student_of e) u)"
  shows "\<forall>(k, r) \<in> set (part2_step e recs). Q k r"
proof -
  from assms(1,2) have old: "\<forall>(k, r) \<in> set recs. Q k r" by auto
  show ?thesis
  proof (cases "dot e \<or> \<not> html e")
    case True
    with old show ?thesis by (simp add: part2_step_def)
  next
    case False
    show ?thesis
    proof (cases "url_of e")
      case None
      with False have w: "without_url e" by (simp add: without_url_def)
      show ?thesis
      proof (cases "map_of recs (student_of e)")
        case N: None
        with None False old show ?thesis by (simp add: part2_step_def)
      next
        case (Some r)
        then have "(student_of e, r) \<in> set recs" by (rule map_of_SomeD)
        with assms(1) have "P (student_of e) r" by auto
        from assms(3) [OF this w] old None False Some show ?thesis
          by (auto simp: part2_step_def dest!: set_update_cases)
      qed
    next
      case (Some u)
      with False have w: "with_url e" by (simp add: with_url_def)
      show ?thesis
      proof (cases "map_of recs (student_of e)")
        case None
        from assms(5) [OF w Some] old None False Some show ?thesis
          by (auto simp: part2_step_def dest!: set_update_cases)
      next
        case S: (Some r)
        then have "(student_of e, r) \<in> set recs" by (rule map_of_SomeD)
        with assms(1) have "P (student_of e) r" by auto
        from assms(4) [OF this w Some] old S False Some show ?thesis
          by (auto simp: part2_step_def dest!: set_update_cases)
      qed
    qed
  qed
qed

lemma run_records:
  assumes ph1: "part1_phase inp ([], []) = Inr st1"
    and ph2: "part2_phase inp st1 = Inr st"
    and p1: "\<And>k cd url nr. P k (part1_record k cd url nr)"
    and fl: "\<And>e es r. cdspec_2 inp = Some es \<Longrightarrow> e \<in> set es \<Longrightarrow> without_url e \<Longrightarrow>
               P (student_of e) r \<Longrightarrow> P (student_of e) (flag_record r)"
    and mg: "\<And>e es r u. cdspec_2 inp = Some es \<Longrightarrow> e \<in> set es \<Longrightarrow> with_url e \<Longrightarrow>
               url_of e = Some u \<Longrightarrow> P (student_of e) r \<Longrightarrow> P (student_of e) (merge_record u r)"
    and p2: "\<And>e es u. cdspec_2 inp = Some es \<Longrightarrow> e \<in> set es \<Longrightarrow> with_url e \<Longrightarrow>
               url_of e = Some u \<Longrightarrow> P (student_of e) (part2_record (student_of e) u)"
  shows "\<forall>(k, r) \<in> set (fst st). P k r"
proof -
  let ?I = "\<lambda>recs. \<forall>(k, r) \<in> set recs. P k r"
  have 1: "?I (fst st1)"
    by (rule part1_phase_records [OF ph1]) (rule p1)
  show ?thesis
  proof (cases "cdspec_2 inp")
    case None
    with 1 part2_phase_Inr [OF ph2] show ?thesis by simp
  next
    case (Some es)
    have "?I (fold part2_step (sort_key fst es) (fst st1))"
    proof (rule fold_invariant [where I = ?I])
      fix e recs
      assume e: "e \<in> set (sort_key fst es)" and i: "?I recs"
      then have m: "e \<in> set es" by simp
      show "?I (part2_step e recs)"
        using i fl [OF Some m] mg [OF Some m] p2 [OF Some m]
        by (intro part2_step_records [where P = P and Q = P]) auto
    qed (rule 1)
    with Some part2_phase_Inr [OF ph2] show ?thesis by simp
  qed
qed

lemma get_part1_record_student: "get (part1_record k cd url nr) ''student'' = VStr k"
  by (simp add: part1_record_def get_def)

lemma get_part2_record_student: "get (part2_record k u) ''student'' = VStr k"
  by (simp add: part2_record_def get_def)

lemma get_flag_record_student: "get (flag_record r) ''student'' = get r ''student''"
  by (simp add: flag_record_def get_update)

lemma get_merge_record_student: "get (merge_record u r) ''student'' = get r ''student''"
  by (simp add: merge_record_def get_update Let_def)

lemma run_keyed:
  assumes "part1_phase inp ([], []) = Inr st1" and "part2_phase inp st1 = Inr st"
  shows "\<forall>(k, r) \<in> set (fst st). get r ''student'' = VStr k"
  by (rule run_records [OF assms])
    (simp_all add: get_part1_record_student get_part2_record_student get_flag_record_student
      get_merge_record_student)

lemma run_distinct:
  assumes "part1_phase inp ([], []) = Inr st1" and "part2_phase inp st1 = Inr st"
  shows "distinct (map fst (fst st))"
  by (rule distinct_part2_phase [OF assms(2)], rule distinct_part1_phase [OF assms(1)]) simp

lemma run_keys:
  assumes "part1_phase inp ([], []) = Inr st1" and "part2_phase inp st1 = Inr st"
  shows "fst ` set (fst st) = part1_students inp \<union> part2_students inp"
  using keys_part1_phase [OF assms(1)] keys_part2_phase [OF assms(2)] by simp

text \<open>The record of a student in the output array is the record stored under the
  student's identifier.\<close>

lemma run_lookup:
  assumes "process_files inp = Inr (data, lg)" and "r \<in> set data"
    and "get r ''student'' = VStr s"
  obtains st1 st where "part1_phase inp ([], []) = Inr st1" and "part2_phase inp st1 = Inr st"
    and "map_of (fst st) s = Some r" and "(s, r) \<in> set (fst st)"
proof -
  from assms(1) obtain st1 st where ph1: "part1_phase inp ([], []) = Inr st1"
    and ph2: "part2_phase inp st1 = Inr st" and d: "data = map snd (fst st)"
    by (rule process_files_Inr)
  from assms(2) d obtain k where k: "(k, r) \<in> set (fst st)" by auto
  with run_keyed [OF ph1 ph2] have "get r ''student'' = VStr k" by auto
  with assms(3) have "k = s" by simp
  with k have m: "(s, r) \<in> set (fst st)" by simp
  with run_distinct [OF ph1 ph2] have "map_of (fst st) s = Some r" by simp
  from that [OF ph1 ph2 this m] show ?thesis .
qed

lemma count_keyed:
  "distinct (map fst recs) \<Longrightarrow> \<forall>(k, r) \<in> set recs. get r ''student'' = VStr k \<Longrightarrow>
   length (filter (\<lambda>r. get r ''student'' = VStr s) (map snd recs)) =
     (if s \<in> fst ` set recs then 1 else 0)"
proof (induction recs)
  case Nil
  show ?case by simp
next
  case (Cons p recs)
  obtain k r where p: "p = (k, r)" by (cases p)
  from Cons.prems p have k: "k \<notin> fst ` set recs" and g: "get r ''student'' = VStr k"
    and d: "distinct (map fst recs)" and a: "\<forall>(k, r) \<in> set recs. get r ''student'' = VStr k"
    by auto
  from Cons.IH [OF d a] k g p show ?case
    by (auto simp: filter_map comp_def split: if_splits)
qed

text \<open>
  C2, as stated, fails: a student whose only file is a Part-2 page without a link gets no
  record; the run only logs the failure.
\<close>

theorem no_record_for_lone_part2_failure:
  "without_url (''bob_part2.html'', no_link_page)
   \<and> student_of (''bob_part2.html'', no_link_page) = ''bob''
   \<and> process_files lone_part2_input =
       Inr ([], [''PART 2 FAIL: Could not extract URL from bob_part2.html''])"
  by code_simp

text \<open>
  C2, amended. A run whose log can be written ends without an exception. For every
  identifier, the output array of a run that ends without an exception holds exactly one
  record with that \<open>student\<close> when the identifier comes from a processed Part-1 file or
  from a processed Part-2 HTML file in which a URL was found, and no record otherwise: an
  identifier whose only files are Part-2 pages without a URL gets none.
\<close>

theorem one_record_per_student:
  "(log_write inp = writable \<longrightarrow> (\<exists>data lg. process_files inp = Inr (data, lg)))
   \<and> (process_files inp = Inr (data, lg) \<longrightarrow>
        length (filter (\<lambda>r. get r ''student'' = VStr s) data) =
          (if s \<in> part1_students inp \<union> part2_students inp then 1 else 0))"
proof (intro conjI impI)
  assume "log_write inp = writable"
  then show "\<exists>data lg. process_files inp = Inr (data, lg)" by (rule process_files_writable)
next
  assume "process_files inp = Inr (data, lg)"
  then obtain st1 st where ph1: "part1_phase inp ([], []) = Inr st1"
    and ph2: "part2_phase inp st1 = Inr st" and d: "data = map snd (fst st)"
    by (rule process_files_Inr)
  from count_keyed [OF run_distinct [OF ph1 ph2] run_keyed [OF ph1 ph2], of s]
  show "length (filter (\<lambda>r. get r ''student'' = VStr s) data) =
          (if s \<in> part1_students inp \<union> part2_students inp then 1 else 0)"
    by (simp add: d run_keys [OF ph1 ph2])
qed

theorem one_record_per_student_witness:
  "log_write mixed_input = writable
   \<and> (\<exists>data lg. process_files mixed_input = Inr (data, lg))
   \<and> process_files mixed_input = Inr (mixed_records, mixed_log)
   \<and> ''alice'' \<in> part1_students mixed_input \<union> part2_students mixed_input
   \<and> length (filter (\<lambda>r. get r ''student'' = VStr ''alice'') mixed_records) = 1
   \<and> ''zed'' \<in> part1_students mixed_input \<union> part2_students mixed_input
   \<and> length (filter (\<lambda>r. get r ''student'' = VStr ''zed'') mixed_records) = 1
   \<and> ''dave'' \<notin> part1_students mixed_input \<union> part2_students mixed_input
   \<and> length (filter (\<lambda>r. get r ''student'' = VStr ''dave'') mixed_records) = 0"
proof -
  have w: "log_write mixed_input = writable" by (simp add: mixed_input_def)
  have p: "process_files mixed_input = Inr (mixed_records, mixed_log)"
    by code_simp
  have a: "''alice'' \<in> part1_students mixed_input \<union> part2_students mixed_input" by code_simp
  have z: "''zed'' \<in> part1_students mixed_input \<union> part2_students mixed_input" by code_simp
  have d: "''dave'' \<notin> part1_students mixed_input \<union> part2_students mixed_input" by code_simp
  have x: "\<exists>data lg. process_files mixed_input = Inr (data, lg)"
    by (rule mp [OF conjunct1 [OF one_record_per_student] w])
  note t = conjunct2 [OF one_record_per_student, THEN mp, OF p]
  have 1: "length (filter (\<lambda>r. get r ''student'' = VStr ''alice'') mixed_records) = 1"
    using t [of "''alice''"] a by (simp only: if_True)
  have 2: "length (filter (\<lambda>r. get r ''student'' = VStr ''zed'') mixed_records) = 1"
    using t [of "''zed''"] z by (simp only: if_True)
  have 3: "length (filter (\<lambda>r. get r ''student'' = VStr ''dave'') mixed_records) = 0"
    using t [of "''dave''"] d by (simp only: if_False)
  show ?thesis
    by (intro conjI) (rule w, rule x, rule p, rule a, rule 1, rule z, rule 2, rule d, rule 3)
qed

subsection \<open>The mismatch flag\<close>

lemma consistent_part1_record: "consistent (part1_record k cd url nr)"
  by (simp add: consistent_def part1_record_def get_def)

lemma mismatch_part1_record: "get (part1_record k cd url nr) ''url_mismatch'' = VNone"
  by (simp add: part1_record_def get_def)

lemma consistent_part2_record: "consistent (part2_record k u)"
  by (simp add: consistent_def part2_record_def get_def del: clean_url.simps)

lemma consistent_flag_record: "consistent (flag_record r) = consistent r"
  by (simp add: consistent_def flag_record_def get_update)

lemma mismatch_flag_record: "get (flag_record r) ''url_mismatch'' = get r ''url_mismatch''"
  by (simp add: flag_record_def get_update)

lemma get_merge_record:
  "get (merge_record u r) ''storymap_url_2'' = VStr u"
  "get (merge_record u r) ''storymap_url'' =
     (if clean_url (get r ''storymap_url'') = [] \<and> clean_url (VStr u) \<noteq> [] then VStr u
      else get r ''storymap_url'')"
  "get (merge_record u r) ''url_mismatch'' =
     (if clean_url (get r ''storymap_url'') \<noteq> [] \<and> clean_url (VStr u) \<noteq> []
         \<and> clean_url (get r ''storymap_url'') \<noteq> clean_url (VStr u)
      then VBool True else get r ''url_mismatch'')"
  by (simp_all add: merge_record_def get_update Let_def del: clean_url.simps)

lemma consistent_merge_record:
  "get r ''url_mismatch'' \<noteq> VBool True \<Longrightarrow> consistent (merge_record u r)"
  by (simp add: consistent_def get_merge_record del: clean_url.simps)

text \<open>Whatever the record was, after a merge the flag is set if the two URLs differ.\<close>

lemma differ_part1_record: "\<not> urls_differ (part1_record k cd url nr)"
  by (simp add: urls_differ_def part1_record_def get_def)

lemma differ_part2_record: "\<not> urls_differ (part2_record k u)"
  by (simp add: urls_differ_def part2_record_def get_def del: clean_url.simps)

lemma differ_flag_record: "urls_differ (flag_record r) = urls_differ r"
  by (simp add: urls_differ_def flag_record_def get_update)

lemma differ_merge_record:
  "urls_differ (merge_record u r) \<Longrightarrow> get (merge_record u r) ''url_mismatch'' = VBool True"
  by (simp add: urls_differ_def get_merge_record del: clean_url.simps split: if_splits)

lemma run_flagged:
  assumes "part1_phase inp ([], []) = Inr st1" and "part2_phase inp st1 = Inr st"
  shows "\<forall>(k, r) \<in> set (fst st). urls_differ r \<longrightarrow> get r ''url_mismatch'' = VBool True"
  by (rule run_records [OF assms])
    (simp_all add: differ_part1_record differ_part2_record differ_flag_record
      mismatch_flag_record differ_merge_record)

text \<open>The record stored for a student after one iteration of the Part-2 loop.\<close>

lemma lookup_other:
  "k \<noteq> student_of e \<Longrightarrow> map_of (part2_step e recs) k = map_of recs k"
  by (simp add: part2_step_def update_conv' split: option.splits)

lemma lookup_skip: "dot e \<or> \<not> html e \<Longrightarrow> part2_step e recs = recs"
  by (simp add: part2_step_def)

lemma lookup_fail:
  "without_url e \<Longrightarrow>
   map_of (part2_step e recs) (student_of e) = map_option flag_record (map_of recs (student_of e))"
  by (simp add: part2_step_def without_url_def update_conv' split: option.splits)

lemma lookup_merge:
  "with_url e \<Longrightarrow> url_of e = Some u \<Longrightarrow>
   map_of (part2_step e recs) (student_of e) =
     Some (case map_of recs (student_of e) of
             Some r0 \<Rightarrow> merge_record u r0
           | None \<Rightarrow> part2_record (student_of e) u)"
  by (simp add: part2_step_def with_url_def update_conv')

lemma entry_cases:
  obtains (skip) "dot e \<or> \<not> html e" "\<not> with_url e" "\<not> without_url e"
  | (fail) "without_url e" "\<not> with_url e"
  | (page) u where "with_url e" "url_of e = Some u" "\<not> without_url e"
  by (cases "url_of e") (auto simp: with_url_def without_url_def)

lemma unmerged_step:
  assumes l: "length (filter (own_page s) (e # es)) \<le> 1"
    and i: "unmerged s (e # es) recs"
  shows "unmerged s es (part2_step e recs)"
proof (cases "student_of e = s")
  case False
  then have "map_of (part2_step e recs) s = map_of recs s" by (simp add: lookup_other)
  moreover from False have "filter (own_page s) (e # es) = filter (own_page s) es"
    by (simp add: own_page_def)
  ultimately show ?thesis using i by (simp add: unmerged_def)
next
  case True
  show ?thesis
  proof (cases e rule: entry_cases)
    case skip
    then have "filter (own_page s) (e # es) = filter (own_page s) es"
      by (simp add: own_page_def)
    with skip i show ?thesis by (simp add: unmerged_def lookup_skip)
  next
    case fail
    then have f: "filter (own_page s) (e # es) = filter (own_page s) es"
      by (simp add: own_page_def)
    from lookup_fail [OF fail(1), of recs] True
    have m: "map_of (part2_step e recs) s = map_option flag_record (map_of recs s)" by simp
    show ?thesis
      unfolding unmerged_def m
    proof (intro allI impI)
      fix r assume "map_option flag_record (map_of recs s) = Some r"
      then obtain r0 where r0: "map_of recs s = Some r0" and r: "r = flag_record r0" by auto
      from i r0 f have "consistent r0"
        and "filter (own_page s) es \<noteq> [] \<longrightarrow> get r0 ''url_mismatch'' \<noteq> VBool True"
        by (simp_all add: unmerged_def)
      then show "consistent r
          \<and> (filter (own_page s) es \<noteq> [] \<longrightarrow> get r ''url_mismatch'' \<noteq> VBool True)"
        by (simp add: r consistent_flag_record mismatch_flag_record)
    qed
  next
    case (page u)
    with True have o: "own_page s e" by (simp add: own_page_def)
    with l have n: "filter (own_page s) es = []" by (cases "filter (own_page s) es") simp_all
    from lookup_merge [OF page(1,2), of recs] True
    have m: "map_of (part2_step e recs) s =
               Some (case map_of recs s of
                       Some r0 \<Rightarrow> merge_record u r0
                     | None \<Rightarrow> part2_record s u)"
      by (simp split: option.splits)
    have "consistent (case map_of recs s of
                       Some r0 \<Rightarrow> merge_record u r0
                     | None \<Rightarrow> part2_record s u)"
    proof (cases "map_of recs s")
      case None
      then show ?thesis by (simp add: consistent_part2_record)
    next
      case (Some r0)
      with i o have "get r0 ''url_mismatch'' \<noteq> VBool True" by (simp add: unmerged_def)
      with Some show ?thesis by (simp add: consistent_merge_record)
    qed
    then show ?thesis unfolding unmerged_def m n by simp
  qed
qed

lemma unmerged_fold:
  "length (filter (own_page s) es) \<le> 1 \<Longrightarrow> unmerged s es recs \<Longrightarrow>
   unmerged s [] (fold part2_step es recs)"
proof (induction es arbitrary: recs)
  case Nil
  then show ?case by simp
next
  case (Cons e es)
  from Cons.prems(1) have l: "length (filter (own_page s) es) \<le> 1"
    by (simp split: if_splits)
  from Cons.IH [OF l unmerged_step [OF Cons.prems]] show ?case by simp
qed

lemma unmerged_part1_phase:
  assumes "part1_phase inp ([], []) = Inr st1"
  shows "unmerged s es (fst st1)"
proof -
  have "\<forall>(k, r) \<in> set (fst st1). consistent r \<and> get r ''url_mismatch'' \<noteq> VBool True"
    by (rule part1_phase_records [OF assms])
      (simp add: consistent_part1_record mismatch_part1_record)
  then show ?thesis by (auto simp: unmerged_def dest!: map_of_SomeD)
qed

lemma length_sorted_pages:
  "length (filter (own_page s) (sort_key fst es)) = length (filter (own_page s) es)"
  by (simp add: filter_sort)

lemma run_consistent:
  assumes ph1: "part1_phase inp ([], []) = Inr st1" and ph2: "part2_phase inp st1 = Inr st"
    and l: "length (url_pages inp s) \<le> 1"
    and m: "map_of (fst st) s = Some r"
  shows "consistent r"
proof (cases "cdspec_2 inp")
  case None
  with part2_phase_Inr [OF ph2] have "fst st = fst st1" by simp
  with unmerged_part1_phase [OF ph1, of s "[]"] m show ?thesis by (simp add: unmerged_def)
next
  case (Some es)
  from l Some have "length (filter (own_page s) (sort_key fst es)) \<le> 1"
    by (simp add: url_pages_def part2_entries_def length_sorted_pages)
  from unmerged_fold [OF this unmerged_part1_phase [OF ph1]] part2_phase_Inr [OF ph2] Some m
  show ?thesis by (simp add: unmerged_def)
qed

text \<open>
  C1, as stated, fails in both directions. With two Part-2 pages for one student, the
  first differing from Part 1 and the second agreeing with it, the record keeps
  \<open>url_mismatch = true\<close> while its two URLs are equal. With a Part-2 link that is a single
  slash, both URLs are non-empty and their normalized forms differ, and no flag is set.
\<close>

theorem url_mismatch_stale_or_missing:
  "process_files two_pages_input =
     Inr ([two_pages_record],
          [''URL MISMATCH: alice - Part 1: https://arcg.is/A1 vs Part 2: https://arcg.is/B2''])
   \<and> get two_pages_record ''url_mismatch'' = VBool True
   \<and> clean_url (get two_pages_record ''storymap_url'')
       = clean_url (get two_pages_record ''storymap_url_2'')
   \<and> process_files slash_page_input = Inr ([slash_page_record], [])
   \<and> get slash_page_record ''url_mismatch'' = VNone
   \<and> truthy (get slash_page_record ''storymap_url'')
   \<and> truthy (get slash_page_record ''storymap_url_2'')
   \<and> clean_url (get slash_page_record ''storymap_url'')
       \<noteq> clean_url (get slash_page_record ''storymap_url_2'')"
  by code_simp

text \<open>
  C1, amended. For every record of the output array of a run that ends without an
  exception: if the normalized forms of its \<open>storymap_url\<close> and \<open>storymap_url_2\<close> are both
  non-empty and differ, the record has \<open>url_mismatch = true\<close>, whatever the Part-2 pages
  are; and if at most one processed Part-2 page with a URL belongs to the record's own
  student, the record has \<open>url_mismatch = true\<close> if and only if the two normalized forms
  are both non-empty and differ, however many pages the other students have.
\<close>

theorem url_mismatch_iff_own_pages:
  assumes "process_files inp = Inr (data, lg)" and "r \<in> set data"
    and "get r ''student'' = VStr s"
  shows "(clean_url (get r ''storymap_url'') \<noteq> []
          \<and> clean_url (get r ''storymap_url_2'') \<noteq> []
          \<and> clean_url (get r ''storymap_url'') \<noteq> clean_url (get r ''storymap_url_2'')
          \<longrightarrow> get r ''url_mismatch'' = VBool True)
         \<and> (length (url_pages inp s) \<le> 1 \<longrightarrow>
              (get r ''url_mismatch'' = VBool True) =
                (clean_url (get r ''storymap_url'') \<noteq> []
                 \<and> clean_url (get r ''storymap_url_2'') \<noteq> []
                 \<and> clean_url (get r ''storymap_url'') \<noteq> clean_url (get r ''storymap_url_2'')))"
proof -
  from assms obtain st1 st where ph1: "part1_phase inp ([], []) = Inr st1"
    and ph2: "part2_phase inp st1 = Inr st" and m: "map_of (fst st) s = Some r"
    and i: "(s, r) \<in> set (fst st)"
    by (rule run_lookup)
  from run_flagged [OF ph1 ph2] i
  have a: "urls_differ r \<longrightarrow> get r ''url_mismatch'' = VBool True" by auto
  have b: "length (url_pages inp s) \<le> 1 \<longrightarrow> consistent r"
    using run_consistent [OF ph1 ph2 _ m] by simp
  from a b show ?thesis unfolding urls_differ_def consistent_def by simp
qed

theorem url_mismatch_iff_own_pages_witness:
  "process_files other_twice_input = Inr ([mismatch_record, bob_twice_record], other_twice_log)
   \<and> get mismatch_record ''student'' = VStr ''alice''
   \<and> length (url_pages other_twice_input ''alice'') = 1
   \<and> length (url_pages other_twice_input ''bob'') = 2
   \<and> clean_url (get mismatch_record ''storymap_url'') \<noteq> []
   \<and> clean_url (get mismatch_record ''storymap_url_2'') \<noteq> []
   \<and> clean_url (get mismatch_record ''storymap_url'')
       \<noteq> clean_url (get mismatch_record ''storymap_url_2'')
   \<and> get mismatch_record ''url_mismatch'' = VBool True
   \<and> (get mismatch_record ''url_mismatch'' = VBool True) =
       (clean_url (get mismatch_record ''storymap_url'') \<noteq> []
        \<and> clean_url (get mismatch_record ''storymap_url_2'') \<noteq> []
        \<and> clean_url (get mismatch_record ''storymap_url'')
            \<noteq> clean_url (get mismatch_record ''storymap_url_2''))"
proof -
  have p: "process_files other_twice_input
             = Inr ([mismatch_record, bob_twice_record], other_twice_log)"
    by code_simp
  have i: "mismatch_record \<in> set [mismatch_record, bob_twice_record]" by simp
  have s: "get mismatch_record ''student'' = VStr ''alice''" by code_simp
  have l: "length (url_pages other_twice_input ''alice'') = 1" by code_simp
  have l2: "length (url_pages other_twice_input ''bob'') = 2" by code_simp
  have c1: "clean_url (get mismatch_record ''storymap_url'') \<noteq> []" by code_simp
  have c2: "clean_url (get mismatch_record ''storymap_url_2'') \<noteq> []" by code_simp
  have c3: "clean_url (get mismatch_record ''storymap_url'')
              \<noteq> clean_url (get mismatch_record ''storymap_url_2'')" by code_simp
  note t = url_mismatch_iff_own_pages [OF p i s]
  from conjunct1 [OF t] c1 c2 c3 have f: "get mismatch_record ''url_mismatch'' = VBool True"
    by (simp del: clean_url.simps)
  from l have "length (url_pages other_twice_input ''alice'') \<le> 1" by simp
  with conjunct2 [OF t] have e: "(get mismatch_record ''url_mismatch'' = VBool True) =
       (clean_url (get mismatch_record ''storymap_url'') \<noteq> []
        \<and> clean_url (get mismatch_record ''storymap_url_2'') \<noteq> []
        \<and> clean_url (get mismatch_record ''storymap_url'')
            \<noteq> clean_url (get mismatch_record ''storymap_url_2''))"
    by (rule mp)
  show ?thesis
    by (intro conjI) (rule p, rule s, rule l, rule l2, rule c1, rule c2, rule c3, rule f, rule e)
qed

subsection \<open>The worklist of the screenshotter\<close>

lemma url_of_nonempty: "url_of e = Some u \<Longrightarrow> u \<noteq> []"
  by (auto simp: url_of_def split: sum.splits option.splits if_splits)

lemma get_flag_record_url_2: "get (flag_record r) ''storymap_url_2'' = get r ''storymap_url_2''"
  by (simp add: flag_record_def get_update)

lemma mismatch_part2_record: "get (part2_record k u) ''url_mismatch'' = VNone"
  by (simp add: part2_record_def get_def)

lemma run_flag_url_2:
  assumes "part1_phase inp ([], []) = Inr st1" and "part2_phase inp st1 = Inr st"
  shows "\<forall>(k, r) \<in> set (fst st).
           truthy (get r ''url_mismatch'') \<longrightarrow> truthy (get r ''storymap_url_2'')"
  by (rule run_records [OF assms])
    (simp_all add: mismatch_part1_record mismatch_part2_record mismatch_flag_record
      get_flag_record_url_2 get_merge_record(1) url_of_nonempty)

text \<open>
  C4, as stated, fails: a record whose \<open>storymap_url\<close> is \<open>None\<close> (Part 1 builds such
  records) has an empty worklist, so no \<open>part1\<close> entry; and a record of the data file
  whose \<open>url_mismatch\<close> is true and that has no \<open>storymap_url_2\<close> has no \<open>part2\<close> entry.
\<close>

theorem worklist_part1_missing:
  "(''part1'', get no_url_record ''storymap_url'') \<notin> set (urls_to_process no_url_record)
   \<and> urls_to_process no_url_record = []
   \<and> truthy (get flag_only_record ''url_mismatch'')
   \<and> (''part2'', get flag_only_record ''storymap_url_2'') \<notin> set (urls_to_process flag_only_record)
   \<and> urls_to_process flag_only_record = [(''part1'', VStr ''https://arcg.is/A1'')]"
  by code_simp

text \<open>
  C4, amended. The worklist is the \<open>part1\<close> entry, when \<open>storymap_url\<close> is a non-empty
  value, followed by the \<open>part2\<close> entry, when \<open>url_mismatch\<close> is true and \<open>storymap_url_2\<close>
  is a non-empty value, and nothing else: it holds \<open>(part1, storymap_url)\<close> exactly when
  \<open>storymap_url\<close> is a non-empty value, and \<open>(part2, storymap_url_2)\<close> exactly when
  \<open>url_mismatch\<close> is true and \<open>storymap_url_2\<close> is a non-empty value; every entry is one
  of these two, no label occurs twice, and \<open>part1\<close> comes before \<open>part2\<close>. For a record of
  the extractor's output array the \<open>part2\<close> entry is there exactly when \<open>url_mismatch\<close> is
  true.
\<close>

theorem worklist_entries:
  "urls_to_process r =
     (if truthy (get r ''storymap_url'') then [(''part1'', get r ''storymap_url'')] else [])
     @ (if truthy (get r ''url_mismatch'') \<and> truthy (get r ''storymap_url_2'')
        then [(''part2'', get r ''storymap_url_2'')] else [])
   \<and> ((''part1'', u) \<in> set (urls_to_process r) \<longleftrightarrow> u = get r ''storymap_url'' \<and> truthy u)
   \<and> ((''part2'', u) \<in> set (urls_to_process r) \<longleftrightarrow>
        truthy (get r ''url_mismatch'') \<and> u = get r ''storymap_url_2'' \<and> truthy u)
   \<and> (\<forall>(label, url) \<in> set (urls_to_process r). label = ''part1'' \<or> label = ''part2'')
   \<and> distinct (map fst (urls_to_process r))
   \<and> urls_to_process r =
        filter (\<lambda>(label, url). label = ''part1'') (urls_to_process r)
        @ filter (\<lambda>(label, url). label = ''part2'') (urls_to_process r)
   \<and> length (urls_to_process r) \<le> 2
   \<and> (process_files inp = Inr (data, lg) \<and> r \<in> set data \<longrightarrow>
        ((''part2'', get r ''storymap_url_2'') \<in> set (urls_to_process r))
          = truthy (get r ''url_mismatch''))"
proof -
  have 1: "urls_to_process r =
     (if truthy (get r ''storymap_url'') then [(''part1'', get r ''storymap_url'')] else [])
     @ (if truthy (get r ''url_mismatch'') \<and> truthy (get r ''storymap_url_2'')
        then [(''part2'', get r ''storymap_url_2'')] else [])"
    by (simp add: urls_to_process_def Let_def)
  have 2: "((''part1'', u) \<in> set (urls_to_process r) \<longleftrightarrow> u = get r ''storymap_url'' \<and> truthy u)"
    by (auto simp: 1)
  have 3: "((''part2'', u) \<in> set (urls_to_process r) \<longleftrightarrow>
        truthy (get r ''url_mismatch'') \<and> u = get r ''storymap_url_2'' \<and> truthy u)" for u
    by (auto simp: 1)
  have 4: "\<forall>(label, url) \<in> set (urls_to_process r). label = ''part1'' \<or> label = ''part2''"
    by (cases "truthy (get r ''storymap_url'')"; cases "truthy (get r ''url_mismatch'')";
        cases "truthy (get r ''storymap_url_2'')")
      (simp_all add: 1)
  have 5: "distinct (map fst (urls_to_process r))"
    by (cases "truthy (get r ''storymap_url'')"; cases "truthy (get r ''url_mismatch'')";
        cases "truthy (get r ''storymap_url_2'')")
      (simp_all add: 1)
  have 6: "urls_to_process r =
        filter (\<lambda>(label, url). label = ''part1'') (urls_to_process r)
        @ filter (\<lambda>(label, url). label = ''part2'') (urls_to_process r)"
    by (cases "truthy (get r ''storymap_url'')"; cases "truthy (get r ''url_mismatch'')";
        cases "truthy (get r ''storymap_url_2'')")
      (simp_all add: 1)
  have 7: "length (urls_to_process r) \<le> 2"
    by (cases "truthy (get r ''storymap_url'')"; cases "truthy (get r ''url_mismatch'')";
        cases "truthy (get r ''storymap_url_2'')")
      (simp_all add: 1)
  have 8: "((''part2'', get r ''storymap_url_2'') \<in> set (urls_to_process r))
          = truthy (get r ''url_mismatch'')"
    if p: "process_files inp = Inr (data, lg)" and i: "r \<in> set data"
  proof -
    from p obtain st1 st where ph1: "part1_phase inp ([], []) = Inr st1"
      and ph2: "part2_phase inp st1 = Inr st" and d: "data = map snd (fst st)"
      by (rule process_files_Inr)
    from i d obtain k where "(k, r) \<in> set (fst st)" by auto
    with run_flag_url_2 [OF ph1 ph2]
    have "truthy (get r ''url_mismatch'') \<longrightarrow> truthy (get r ''storymap_url_2'')" by auto
    then show ?thesis unfolding 3 by auto
  qed
  from 1 2 3 4 5 6 7 8 show ?thesis by (intro conjI impI) (simp_all only:)
qed

theorem worklist_entries_witness:
  "urls_to_process mismatch_record =
     [(''part1'', VStr ''https://arcg.is/A1''), (''part2'', VStr ''https://arcg.is/B2'')]
   \<and> (''part1'', VStr ''https://arcg.is/A1'') \<in> set (urls_to_process mismatch_record)
   \<and> (''part2'', VStr ''https://arcg.is/B2'') \<in> set (urls_to_process mismatch_record)
   \<and> (''part2'', VStr ''https://arcg.is/B2'') \<notin> set (urls_to_process no_url_record)
   \<and> process_files mixed_input = Inr (mixed_records, mixed_log)
   \<and> mismatch_record \<in> set mixed_records
   \<and> truthy (get mismatch_record ''url_mismatch'')
   \<and> (''part2'', get mismatch_record ''storymap_url_2'') \<in> set (urls_to_process mismatch_record)
   \<and> carol_record \<in> set mixed_records
   \<and> \<not> truthy (get carol_record ''url_mismatch'')
   \<and> (''part2'', get carol_record ''storymap_url_2'') \<notin> set (urls_to_process carol_record)"
proof -
  have a: "get mismatch_record ''storymap_url'' = VStr ''https://arcg.is/A1''" by code_simp
  have b: "get mismatch_record ''storymap_url_2'' = VStr ''https://arcg.is/B2''" by code_simp
  have c: "get mismatch_record ''url_mismatch'' = VBool True" by code_simp
  have d: "get no_url_record ''url_mismatch'' = VNone" by code_simp
  have e: "get carol_record ''url_mismatch'' = VNone" by code_simp
  have p: "process_files mixed_input = Inr (mixed_records, mixed_log)" by code_simp
  have i: "mismatch_record \<in> set mixed_records" by (simp add: mixed_records_def)
  have j: "carol_record \<in> set mixed_records" by (simp add: mixed_records_def)
  from worklist_entries [of mismatch_record "VStr ''https://arcg.is/A1''" mixed_input
         mixed_records mixed_log]
    worklist_entries [of mismatch_record "VStr ''https://arcg.is/B2''" mixed_input
         mixed_records mixed_log]
    worklist_entries [of no_url_record "VStr ''https://arcg.is/B2''" mixed_input
         mixed_records mixed_log]
    worklist_entries [of carol_record "VStr ''https://arcg.is/B2''" mixed_input
         mixed_records mixed_log]
    a b c d e p i j
  show ?thesis by simp
qed

subsection \<open>The keys of a record\<close>






























subsection \<open>The primary URL\<close>

lemma get_flag_record_url: "get (flag_record r) ''storymap_url'' = get r ''storymap_url''"
  by (simp add: flag_record_def get_update)

lemma part2_step_same_url:
  assumes m: "map_of recs s = Some r"
    and c: "clean_url (get r ''storymap_url'') \<noteq> []"
  shows "\<exists>r'. map_of (part2_step e recs) s = Some r'
           \<and> get r' ''storymap_url'' = get r ''storymap_url''"
  using m c
  by (auto simp: part2_step_def update_conv' get_flag_record_url get_merge_record
      simp del: clean_url.simps split: option.splits)

lemma fold_part2_same_url:
  "map_of recs s = Some r \<Longrightarrow> clean_url (get r ''storymap_url'') \<noteq> [] \<Longrightarrow>
   \<exists>r'. map_of (fold part2_step es recs) s = Some r'
           \<and> get r' ''storymap_url'' = get r ''storymap_url''"
proof (induction es arbitrary: recs r)
  case Nil
  then show ?case by simp
next
  case (Cons e es)
  from part2_step_same_url [OF Cons.prems, of e] obtain r1
    where 1: "map_of (part2_step e recs) s = Some r1"
      and 2: "get r1 ''storymap_url'' = get r ''storymap_url''"
    by blast
  from Cons.prems(2) 2 have "clean_url (get r1 ''storymap_url'') \<noteq> []" by simp
  from Cons.IH [OF 1 this] 2 show ?case by simp
qed

lemma part2_step_changed_url:
  assumes m: "map_of recs s = Some r"
    and m': "map_of (part2_step e recs) s = Some r'"
    and d: "get r' ''storymap_url'' \<noteq> get r ''storymap_url''"
  shows "clean_url (get r ''storymap_url'') = [] \<and> student_of e = s
         \<and> url_of e = Some (str_of (get r' ''storymap_url''))
         \<and> get r' ''storymap_url'' = VStr (str_of (get r' ''storymap_url''))"
  using m m' d
  by (auto simp: part2_step_def update_conv' get_flag_record_url get_merge_record
      simp del: clean_url.simps split: option.splits if_splits)

text \<open>
  C3, as stated, fails: a Part-1 URL cell holding a single slash gives a record with the
  non-empty \<open>storymap_url\<close> \<open>/\<close>, which Part 2 replaces.
\<close>

theorem part1_slash_url_replaced:
  "part1_phase slash_cell_input ([], [])
     = Inr ([(''alice'', part1_record ''alice'' (Some ''CD 1'') (Some ''/'') False)], [])
   \<and> get (part1_record ''alice'' (Some ''CD 1'') (Some ''/'') False) ''storymap_url'' = VStr ''/''
   \<and> truthy (VStr ''/'')
   \<and> process_files slash_cell_input =
       Inr ([slash_cell_record], [''UPDATED: alice - Using Part 2 URL (Part 1 missing).''])
   \<and> get slash_cell_record ''storymap_url'' = VStr ''https://arcg.is/A1''"
  by code_simp

text \<open>
  C3, amended. A record whose \<open>storymap_url\<close> has a non-empty normalized form keeps that
  \<open>storymap_url\<close> through the whole Part-2 loop, whatever the directory holds. One
  iteration of the loop changes the \<open>storymap_url\<close> of an existing record only when its
  normalized form was empty, and then to the URL of a page of that student. The loop
  and each of its iterations end without an exception when the log can be written.
\<close>

theorem part1_url_kept:
  "(map_of (fst st) s = Some r \<and> clean_url (get r ''storymap_url'') \<noteq> []
    \<and> part2_phase inp st = Inr st' \<longrightarrow>
      (\<exists>r'. map_of (fst st') s = Some r'
             \<and> get r' ''storymap_url'' = get r ''storymap_url''))
   \<and> (map_of (fst st) s = Some r \<and> part2_file w e st = Inr st'
       \<and> map_of (fst st') s = Some r'
       \<and> get r' ''storymap_url'' \<noteq> get r ''storymap_url'' \<longrightarrow>
         clean_url (get r ''storymap_url'') = [] \<and> student_of e = s
         \<and> url_of e = Some (str_of (get r' ''storymap_url''))
         \<and> get r' ''storymap_url'' = VStr (str_of (get r' ''storymap_url'')))
   \<and> (log_write inp = writable \<longrightarrow> (\<exists>st'. part2_phase inp st = Inr st'))
   \<and> (\<exists>st'. part2_file writable e st = Inr st')"
proof -
  have 1: "map_of (fst st) s = Some r \<and> clean_url (get r ''storymap_url'') \<noteq> []
    \<and> part2_phase inp st = Inr st' \<longrightarrow>
      (\<exists>r'. map_of (fst st') s = Some r'
             \<and> get r' ''storymap_url'' = get r ''storymap_url'')"
  proof
    assume a: "map_of (fst st) s = Some r \<and> clean_url (get r ''storymap_url'') \<noteq> []
      \<and> part2_phase inp st = Inr st'"
    then have m: "map_of (fst st) s = Some r" and c: "clean_url (get r ''storymap_url'') \<noteq> []"
      and p: "part2_phase inp st = Inr st'"
      by simp_all
    show "\<exists>r'. map_of (fst st') s = Some r' \<and> get r' ''storymap_url'' = get r ''storymap_url''"
    proof (cases "cdspec_2 inp")
      case None
      with part2_phase_Inr [OF p] m show ?thesis by simp
    next
      case (Some es)
      with part2_phase_Inr [OF p] fold_part2_same_url [OF m c, of "sort_key fst es"]
      show ?thesis by simp
    qed
  qed
  have 2: "map_of (fst st) s = Some r \<and> part2_file w e st = Inr st'
       \<and> map_of (fst st') s = Some r'
       \<and> get r' ''storymap_url'' \<noteq> get r ''storymap_url'' \<longrightarrow>
         clean_url (get r ''storymap_url'') = [] \<and> student_of e = s
         \<and> url_of e = Some (str_of (get r' ''storymap_url''))
         \<and> get r' ''storymap_url'' = VStr (str_of (get r' ''storymap_url''))"
  proof
    assume a: "map_of (fst st) s = Some r \<and> part2_file w e st = Inr st'
         \<and> map_of (fst st') s = Some r'
         \<and> get r' ''storymap_url'' \<noteq> get r ''storymap_url''"
    then have m: "map_of (fst st) s = Some r" and p: "part2_file w e st = Inr st'"
      and m': "map_of (fst st') s = Some r'"
      and d: "get r' ''storymap_url'' \<noteq> get r ''storymap_url''"
      by simp_all
    from m' part2_file_Inr [OF p] have "map_of (part2_step e (fst st)) s = Some r'" by simp
    from part2_step_changed_url [OF m this d]
    show "clean_url (get r ''storymap_url'') = [] \<and> student_of e = s
           \<and> url_of e = Some (str_of (get r' ''storymap_url''))
           \<and> get r' ''storymap_url'' = VStr (str_of (get r' ''storymap_url''))" .
  qed
  have 3: "log_write inp = writable \<longrightarrow> (\<exists>st'. part2_phase inp st = Inr st')"
    by (rule impI) (rule part2_phase_writable)
  have 4: "\<exists>st'. part2_file writable e st = Inr st'" by (rule part2_file_writable)
  show ?thesis by (intro conjI) (rule 1, rule 2, rule 3, rule 4)
qed

theorem part1_url_kept_witness:
  "part1_phase mixed_input ([], [])
     = Inr ([(''alice'', part1_record ''alice'' (Some ''CD 1'') (Some ''https://arcg.is/A1'') False),
             (''bob'', part1_record ''bob'' (Some ''CD 1'') (Some ''https://arcg.is/B1'') False),
             (''carol'', carol_record)], [])
   \<and> clean_url (get (part1_record ''alice'' (Some ''CD 1'') (Some ''https://arcg.is/A1'') False)
        ''storymap_url'') \<noteq> []
   \<and> (\<exists>st' r'.
        part2_phase mixed_input
          ([(''alice'', part1_record ''alice'' (Some ''CD 1'') (Some ''https://arcg.is/A1'') False),
            (''bob'', part1_record ''bob'' (Some ''CD 1'') (Some ''https://arcg.is/B1'') False),
            (''carol'', carol_record)], []) = Inr st'
        \<and> map_of (fst st') ''alice'' = Some r'
        \<and> get r' ''storymap_url''
            = get (part1_record ''alice'' (Some ''CD 1'') (Some ''https://arcg.is/A1'') False)
                ''storymap_url'')
   \<and> part2_file writable (''alice_part2.html'', link_page ''https://arcg.is/A1'')
        ([(''alice'', part1_record ''alice'' (Some ''CD 1'') (Some ''/'') False)], [])
       = Inr ([(''alice'', slash_cell_record)],
              [''UPDATED: alice - Using Part 2 URL (Part 1 missing).''])
   \<and> get slash_cell_record ''storymap_url''
       \<noteq> get (part1_record ''alice'' (Some ''CD 1'') (Some ''/'') False) ''storymap_url''
   \<and> clean_url (get (part1_record ''alice'' (Some ''CD 1'') (Some ''/'') False) ''storymap_url'')
       = []"
proof -
  let ?a = "part1_record ''alice'' (Some ''CD 1'') (Some ''https://arcg.is/A1'') False"
  let ?b = "part1_record ''bob'' (Some ''CD 1'') (Some ''https://arcg.is/B1'') False"
  let ?s = "part1_record ''alice'' (Some ''CD 1'') (Some ''/'') False"
  let ?e = "(''alice_part2.html'', link_page ''https://arcg.is/A1'')"
  let ?st = "([(''alice'', ?a), (''bob'', ?b), (''carol'', carol_record)], [])
               :: records \<times> string list"
  let ?st2 = "([(''alice'', ?s)], []) :: records \<times> string list"
  let ?st3 = "([(''alice'', slash_cell_record)],
               [''UPDATED: alice - Using Part 2 URL (Part 1 missing).''])
               :: records \<times> string list"
  have p: "part1_phase mixed_input ([], []) = Inr ?st" by code_simp
  have a: "map_of (fst ?st) ''alice'' = Some ?a" by simp
  have b: "clean_url (get ?a ''storymap_url'') \<noteq> []" by code_simp
  have w: "log_write mixed_input = writable" by (simp add: mixed_input_def)
  have c: "map_of (fst ?st2) ''alice'' = Some ?s" by simp
  have d: "part2_file writable ?e ?st2 = Inr ?st3" by code_simp
  have d': "map_of (fst ?st3) ''alice'' = Some slash_cell_record" by simp
  have e: "get slash_cell_record ''storymap_url'' \<noteq> get ?s ''storymap_url''" by code_simp
  from mp [OF conjunct1 [OF conjunct2 [OF conjunct2
          [OF part1_url_kept [of ?st _ _ mixed_input]]]] w]
  obtain st' where q: "part2_phase mixed_input ?st = Inr st'" by blast
  note t1 = part1_url_kept [of ?st "''alice''" ?a mixed_input st']
  from mp [OF conjunct1 [OF t1] conjI [OF a conjI [OF b q]]] obtain r'
    where "map_of (fst st') ''alice'' = Some r'"
      and "get r' ''storymap_url'' = get ?a ''storymap_url''"
    by blast
  with q have 1: "\<exists>st' r'. part2_phase mixed_input ?st = Inr st'
        \<and> map_of (fst st') ''alice'' = Some r'
        \<and> get r' ''storymap_url'' = get ?a ''storymap_url''"
    by blast
  note t2 = part1_url_kept [of ?st2 "''alice''" ?s _ ?st3 writable ?e slash_cell_record]
  have 2: "clean_url (get ?s ''storymap_url'') = []"
    by (rule conjunct1 [OF mp [OF conjunct1 [OF conjunct2 [OF t2]]
          conjI [OF c conjI [OF d conjI [OF d' e]]]]])
  show ?thesis by (intro conjI) (rule p, rule b, rule 1, rule d, rule e, rule 2)
qed

subsection \<open>The values of the primary URL\<close>

text \<open>
  In every record of a run \<open>storymap_url\<close> is \<open>None\<close> or a string, the two kinds of value
  on which \<open>clean_url\<close> follows the source.
\<close>

lemma run_storymap_url_typed:
  assumes "part1_phase inp ([], []) = Inr st1" and "part2_phase inp st1 = Inr st"
  shows "\<forall>(k, r) \<in> set (fst st).
     get r ''storymap_url'' = VNone \<or> get r ''storymap_url'' = VStr (str_of (get r ''storymap_url''))"
proof (rule run_records [OF assms])
  fix k cd url nr
  show "get (part1_record k cd url nr) ''storymap_url'' = VNone
        \<or> get (part1_record k cd url nr) ''storymap_url''
            = VStr (str_of (get (part1_record k cd url nr) ''storymap_url''))"
    by (cases url) (simp_all add: part1_record_def get_def of_opt_def)
next
  fix e :: "string \<times> (string + string)" and r
  assume "get r ''storymap_url'' = VNone
          \<or> get r ''storymap_url'' = VStr (str_of (get r ''storymap_url''))"
  then show "get (flag_record r) ''storymap_url'' = VNone
        \<or> get (flag_record r) ''storymap_url'' = VStr (str_of (get (flag_record r) ''storymap_url''))"
    by (simp only: get_flag_record_url)
next
  fix e :: "string \<times> (string + string)" and r u
  assume a: "get r ''storymap_url'' = VNone
          \<or> get r ''storymap_url'' = VStr (str_of (get r ''storymap_url''))"
  show "get (merge_record u r) ''storymap_url'' = VNone
        \<or> get (merge_record u r) ''storymap_url''
            = VStr (str_of (get (merge_record u r) ''storymap_url''))"
  proof (cases "clean_url (get r ''storymap_url'') = [] \<and> clean_url (VStr u) \<noteq> []")
    case True
    then have "get (merge_record u r) ''storymap_url'' = VStr u"
      unfolding get_merge_record(2) by (rule if_P)
    then show ?thesis by simp
  next
    case False
    then have "get (merge_record u r) ''storymap_url'' = get r ''storymap_url''"
      unfolding get_merge_record(2) by (rule if_not_P)
    with a show ?thesis by (simp only:)
  qed
next
  fix e :: "string \<times> (string + string)" and u
  show "get (part2_record (student_of e) u) ''storymap_url'' = VNone
        \<or> get (part2_record (student_of e) u) ''storymap_url''
            = VStr (str_of (get (part2_record (student_of e) u) ''storymap_url''))"
    by (simp add: part2_record_def get_def)
qed

end
